theory Spec2Isabelle
  imports Main "HOL-Library.AList"
begin

section \<open>Python strings\<close>

text \<open>
  A Python \<open>str\<close> is a list of characters; the model's characters are the code points
  below 256. \<open>str.strip()\<close> removes leading and trailing whitespace: among these code
  points Python counts 9-13, 28-32, 133 and 160 as whitespace. \<open>str.lower()\<close> maps
  \<open>A\<close>-\<open>Z\<close> and the upper-case letters 192-222 (but not 215, the multiplication sign)
  32 places up and leaves every other code point below 256 unchanged.
\<close>

definition is_space :: "char \<Rightarrow> bool" where
  "is_space c = (of_char c \<in> {9, 10, 11, 12, 13, 28, 29, 30, 31, 32, 133, 160 :: nat})"

definition strip :: "string \<Rightarrow> string" where
  "strip s = rev (dropWhile is_space (rev (dropWhile is_space s)))"

definition lower_char :: "char \<Rightarrow> char" where
  "lower_char c =
     (let n = (of_char c :: nat)
      in if (65 \<le> n \<and> n \<le> 90) \<or> (192 \<le> n \<and> n \<le> 222 \<and> n \<noteq> 215)
         then char_of (n + 32) else c)"

definition lower :: "string \<Rightarrow> string" where
  "lower s = map lower_char s"

text \<open>\<open>s.find(c)\<close> for a one-character needle: the first index, or -1.\<close>

fun find_from :: "char \<Rightarrow> string \<Rightarrow> int \<Rightarrow> int" where
  "find_from c [] i = -1"
| "find_from c (x # xs) i = (if x = c then i else find_from c xs (i + 1))"

definition str_find :: "string \<Rightarrow> char \<Rightarrow> int" where
  "str_find s c = find_from c s 0"

text \<open>
  \<open>s[i:j]\<close>: a negative bound counts from the end, both bounds are clamped to the
  string, and an empty range gives the empty string (slicing never raises).
\<close>

definition clamp_index :: "nat \<Rightarrow> int \<Rightarrow> nat" where
  "clamp_index n i = (if i < 0 then nat (max 0 (int n + i)) else min n (nat i))"

definition slice :: "'a list \<Rightarrow> int \<Rightarrow> int \<Rightarrow> 'a list" where
  "slice s i j =
     (let a = clamp_index (length s) i; b = clamp_index (length s) j
      in take (b - a) (drop a s))"

text \<open>\<open>s.split(c)\<close> for a one-character separator: the pieces between the separators.\<close>

fun split_on :: "char \<Rightarrow> string \<Rightarrow> string list" where
  "split_on c [] = [[]]"
| "split_on c (x # xs) =
     (if x = c then [] # split_on c xs
      else (case split_on c xs of
              [] \<Rightarrow> [[x]]
            | p # ps \<Rightarrow> (x # p) # ps))"

section \<open>Identity extraction (resolver.py)\<close>

text \<open>
  \<open>extract_email_from_address\<close>: \<open>None\<close> and the empty string give \<open>None\<close>; a string
  holding both \<open><\<close> and \<open>>\<close> gives the slice from after the first \<open><\<close> to the first
  \<open>>\<close>, stripped; any other string is returned stripped.
\<close>

definition extract_email_from_address :: "string option \<Rightarrow> string option" where
  "extract_email_from_address address =
     (case address of
        None \<Rightarrow> None
      | Some a \<Rightarrow>
          if a = [] then None
          else if CHR ''<'' \<in> set a \<and> CHR ''>'' \<in> set a then
            (let start = str_find a CHR ''<'' + 1;
                 end' = str_find a CHR ''>''
             in Some (strip (slice a start end')))
          else Some (strip a))"

text \<open>
  \<open>extract_domain_from_email\<close>: the empty string without an \<open>@\<close>; otherwise element 1
  of \<open>email.split("@")\<close>, lower-cased. The index is in range whenever the guard lets the
  split run (\<open>split_on_length\<close> below), so the function has no IndexError branch.
\<close>

definition extract_domain_from_email :: "string \<Rightarrow> string" where
  "extract_domain_from_email email =
     (if CHR ''@'' \<notin> set email then []
      else lower (split_on CHR ''@'' email ! 1))"

definition extract_local_part_from_email :: "string \<Rightarrow> string" where
  "extract_local_part_from_email email =
     (if CHR ''@'' \<notin> set email then email
      else lower (split_on CHR ''@'' email ! 0))"


section \<open>Domain classification (processor.py)\<close>

definition COMMON_EMAIL_PROVIDERS :: "string list" where
  "COMMON_EMAIL_PROVIDERS =
     [''gmail.com'', ''yahoo.com'', ''outlook.com'', ''hotmail.com'', ''icloud.com'']"

definition is_business_domain :: "string \<Rightarrow> bool" where
  "is_business_domain domain =
     (if domain = [] then False else lower domain \<notin> set COMMON_EMAIL_PROVIDERS)"

text \<open>
  A Python set is a list without repetitions, in the order of first insertion, which is
  one of the orders Python may iterate it in; a dict is an association list read with
  \<open>map_of\<close>.
\<close>

definition set_add :: "'a \<Rightarrow> 'a list \<Rightarrow> 'a list" where
  "set_add x xs = (if x \<in> set xs then xs else xs @ [x])"

text \<open>
  Step 4 of \<open>process_thread_entities\<close>: the loop over the participant emails that
  fills \<open>business_domains\<close> and \<open>email_to_domain\<close>.
\<close>

definition business_step ::
  "string list \<times> (string \<times> string) list \<Rightarrow> string \<Rightarrow> string list \<times> (string \<times> string) list" where
  "business_step acc email =
     (let domain = extract_domain_from_email email
      in if domain \<noteq> [] \<and> is_business_domain domain
         then (set_add domain (fst acc), AList.update email domain (snd acc))
         else acc)"

definition filter_business_domains ::
  "string list \<Rightarrow> string list \<times> (string \<times> string) list" where
  "filter_business_domains participant_emails = foldl business_step ([], []) participant_emails"


section \<open>The record store\<close>

text \<open>
  The tables the three services read and write, for all tenants. Every call on the store
  returns: a select gives the matching rows in table order, an update rewrites the
  matching rows (none, when no row matches), and an insert appends a row with a fresh
  generated key, or is refused with a duplicate-key error when the table's unique
  columns are taken. Generated keys are natural numbers; a key is never empty, so
  Python's truth test on a key only asks whether it is there.
\<close>

datatype jsonb = JNull | JArray "string list" | JText string

record stage_row =
  sr_thread_id :: string
  sr_user_id :: string
  current_stage :: "string option"

record message =
  message_id :: string
  m_thread_id :: string
  m_user_id :: string
  from_address :: "string option"
  to_addresses :: jsonb
  cc_addresses :: jsonb
  body_text :: "string option"
  body_html :: "string option"
  sent_date :: "string option"
  m_customer_id :: "nat option"

record company =
  company_id :: nat
  c_user_id :: string
  domain_name :: string
  company_name :: string
  c_status :: string

record customer =
  customer_id :: nat
  cu_user_id :: string
  cu_email :: string
  full_name :: string
  cu_company_id :: "nat option"
  domain_match :: "string option"
  cu_status :: string

record participant =
  p_thread_id :: string
  p_customer_id :: nat
  p_user_id :: string

record company_link =
  l_thread_id :: string
  l_company_id :: nat
  l_user_id :: string

record thread_row =
  t_thread_id :: string
  t_user_id :: string
  last_analyzed_at :: "string option"
  summary :: "string option"
  sentiment :: "string option"
  sentiment_score :: "int option"
  resolution_status :: "string option"
  t_problem_statement :: "string option"
  t_timeline_summary :: "string option"

record next_step =
  step_id :: nat
  ns_thread_id :: string
  ns_user_id :: string
  description :: string
  ns_owner :: "string option"
  ns_due_date :: "string option"
  ns_status :: string

record feature_request =
  fr_thread_id :: string
  fr_user_id :: string
  fr_title :: string
  customer_description :: "string option"
  use_case :: "string option"
  urgency :: "string option"
  urgency_signals :: "string option"
  customer_impact :: "string option"
  fr_status :: string

record assignment =
  next_step_id :: nat
  a_customer_id :: nat

record store =
  profile_rows :: "(string \<times> string option) list"
  stage_rows :: "stage_row list"
  thread_rows :: "thread_row list"
  message_rows :: "message list"
  company_rows :: "company list"
  customer_rows :: "customer list"
  participant_rows :: "participant list"
  link_rows :: "company_link list"
  next_step_rows :: "next_step list"
  feature_request_rows :: "feature_request list"
  assignment_rows :: "assignment list"
  next_key :: nat

datatype db_error = DuplicateKey

text \<open>
  \<open>table("thread_processing_stages").update({"current_stage": stage})
  .in_("thread_id", thread_ids).eq("user_id", user_id)\<close>.
\<close>

definition update_stage :: "string list \<Rightarrow> string \<Rightarrow> string \<Rightarrow> store \<Rightarrow> store" where
  "update_stage thread_ids user_id stage s =
     s\<lparr>stage_rows :=
         map (\<lambda>r. if sr_thread_id r \<in> set thread_ids \<and> sr_user_id r = user_id
                  then r\<lparr>current_stage := Some stage\<rparr> else r)
           (stage_rows s)\<rparr>"

text \<open>
  \<open>select(...).eq(...).eq("user_id", user_id).maybe_single()\<close> on columns that are
  unique per tenant: the matching row, if there is one.
\<close>

definition find_company :: "store \<Rightarrow> string \<Rightarrow> string \<Rightarrow> company option" where
  "find_company s user_id domain =
     List.find (\<lambda>c. domain_name c = domain \<and> c_user_id c = user_id) (company_rows s)"

definition find_customer :: "store \<Rightarrow> string \<Rightarrow> string \<Rightarrow> customer option" where
  "find_customer s user_id email =
     List.find (\<lambda>c. cu_email c = email \<and> cu_user_id c = user_id) (customer_rows s)"

definition insert_company ::
  "string \<Rightarrow> string \<Rightarrow> string \<Rightarrow> store \<Rightarrow> db_error + company \<times> store" where
  "insert_company user_id domain name s =
     (if find_company s user_id domain \<noteq> None then Inl DuplicateKey
      else
        (let row = \<lparr>company_id = next_key s, c_user_id = user_id, domain_name = domain,
                     company_name = name, c_status = ''active''\<rparr>
         in Inr (row, s\<lparr>company_rows := company_rows s @ [row],
                          next_key := Suc (next_key s)\<rparr>)))"

text \<open>
  \<open>upsert(company_data, on_conflict="user_id,domain_name")\<close>: the row with the same
  tenant and domain is overwritten with the new name and status, or the row is inserted.
\<close>

definition upsert_company ::
  "string \<Rightarrow> string \<Rightarrow> string \<Rightarrow> store \<Rightarrow> company \<times> store" where
  "upsert_company user_id domain name s =
     (case find_company s user_id domain of
        Some old \<Rightarrow>
          (let row = old\<lparr>company_name := name, c_status := ''active''\<rparr>
           in (row, s\<lparr>company_rows :=
                        map (\<lambda>c. if domain_name c = domain \<and> c_user_id c = user_id
                                 then c\<lparr>company_name := name, c_status := ''active''\<rparr>
                                 else c)
                          (company_rows s)\<rparr>))
      | None \<Rightarrow>
          (let row = \<lparr>company_id = next_key s, c_user_id = user_id, domain_name = domain,
                       company_name = name, c_status = ''active''\<rparr>
           in (row, s\<lparr>company_rows := company_rows s @ [row],
                        next_key := Suc (next_key s)\<rparr>)))"

definition insert_customer ::
  "string \<Rightarrow> string \<Rightarrow> string \<Rightarrow> nat option \<Rightarrow> string option \<Rightarrow> store
     \<Rightarrow> db_error + customer \<times> store" where
  "insert_customer user_id email name co dm s =
     (if find_customer s user_id email \<noteq> None then Inl DuplicateKey
      else
        (let row = \<lparr>customer_id = next_key s, cu_user_id = user_id, cu_email = email,
                     full_name = name, cu_company_id = co, domain_match = dm,
                     cu_status = ''prospect''\<rparr>
         in Inr (row, s\<lparr>customer_rows := customer_rows s @ [row],
                          next_key := Suc (next_key s)\<rparr>)))"

text \<open>
  \<open>table("customers").update({"company_id": cid, "domain_match": domain})
  .eq("customer_id", id).eq("user_id", user_id)\<close>.
\<close>

definition update_customer_company ::
  "nat \<Rightarrow> string \<Rightarrow> nat \<Rightarrow> string \<Rightarrow> store \<Rightarrow> store" where
  "update_customer_company cust_id user_id coid domain s =
     s\<lparr>customer_rows :=
         map (\<lambda>c. if customer_id c = cust_id \<and> cu_user_id c = user_id
                  then c\<lparr>cu_company_id := Some coid, domain_match := Some domain\<rparr>
                  else c)
           (customer_rows s)\<rparr>"

section \<open>Participant emails (steps 3 of processor.py and resolver.py)\<close>

text \<open>
  \<open>json.loads\<close> is the library's: its outcome on a text column is a parameter of the
  model, a decoding error, a list (its items already passed through \<open>str\<close>), or
  another JSON value. An exception of another kind, which the code does not catch, is
  not among the outcomes.
\<close>

datatype loads_result = DecodeError | ParsedList "string list" | ParsedOther

definition add_email :: "string list \<Rightarrow> string option \<Rightarrow> string list" where
  "add_email emails e =
     (case e of
        None \<Rightarrow> emails
      | Some x \<Rightarrow> if x = [] then emails else set_add (lower x) emails)"

definition emails_of_items :: "string list \<Rightarrow> string list" where
  "emails_of_items items =
     foldl (\<lambda>emails item. add_email emails (extract_email_from_address (Some item))) [] items"

definition extract_emails_from_json :: "(string \<Rightarrow> loads_result) \<Rightarrow> jsonb \<Rightarrow> string list" where
  "extract_emails_from_json json_loads json_data =
     (case json_data of
        JNull \<Rightarrow> []
      | JArray items \<Rightarrow> emails_of_items items
      | JText t \<Rightarrow>
          if t = [] then []
          else (case json_loads t of
                  ParsedList items \<Rightarrow> emails_of_items items
                | ParsedOther \<Rightarrow> []
                | DecodeError \<Rightarrow> add_email [] (extract_email_from_address (Some t))))"

definition set_update :: "'a list \<Rightarrow> 'a list \<Rightarrow> 'a list" where
  "set_update xs ys = foldl (\<lambda>acc y. set_add y acc) xs ys"

definition message_emails ::
  "(string \<Rightarrow> loads_result) \<Rightarrow> string list \<Rightarrow> message \<Rightarrow> string list" where
  "message_emails json_loads emails m =
     (let e1 = (case from_address m of
                  None \<Rightarrow> emails
                | Some a \<Rightarrow> if a = [] then emails
                            else add_email emails (extract_email_from_address (Some a)));
          e2 = set_update e1 (extract_emails_from_json json_loads (to_addresses m))
      in set_update e2 (extract_emails_from_json json_loads (cc_addresses m)))"

definition extract_participant_emails ::
  "(string \<Rightarrow> loads_result) \<Rightarrow> message list \<Rightarrow> string list" where
  "extract_participant_emails json_loads msgs = foldl (message_emails json_loads) [] msgs"

section \<open>process_thread_entities (processor.py)\<close>

text \<open>
  \<open>str.capitalize()\<close>: the first character upper-cased, the rest lower-cased. The upper
  case of the code points 181, 223 and 255 lies outside the model's characters; they are
  kept as they are.
\<close>

definition upper_char :: "char \<Rightarrow> char" where
  "upper_char c =
     (let n = (of_char c :: nat)
      in if (97 \<le> n \<and> n \<le> 122) \<or> (224 \<le> n \<and> n \<le> 254 \<and> n \<noteq> 247)
         then char_of (n - 32) else c)"

definition capitalize :: "string \<Rightarrow> string" where
  "capitalize s = (case s of [] \<Rightarrow> [] | c # cs \<Rightarrow> upper_char c # lower cs)"

definition company_name_of :: "string \<Rightarrow> string" where
  "company_name_of domain =
     (if CHR ''.'' \<in> set domain then capitalize (hd (split_on CHR ''.'' domain))
      else capitalize domain)"

record process_result =
  pr_success :: bool
  messages_processed :: nat
  emails_extracted :: nat
  business_domains_found :: nat
  companies_created :: nat
  companies_found :: nat
  pr_customers_created :: nat
  pr_customers_found :: nat
  thread_company_links_created :: nat

record pstate =
  st :: store
  domain_to_company_id :: "(string \<times> nat) list"
  email_to_customer_id :: "(string \<times> nat) list"
  res :: process_result

text \<open>Step 5, one turn of the loop over \<open>business_domains\<close>.\<close>

definition company_step :: "string \<Rightarrow> pstate \<Rightarrow> string \<Rightarrow> pstate" where
  "company_step user_id p domain =
     (case find_company (st p) user_id domain of
        Some c \<Rightarrow>
          p\<lparr>domain_to_company_id := AList.update domain (company_id c) (domain_to_company_id p),
            res := (res p)\<lparr>companies_found := companies_found (res p) + 1\<rparr>\<rparr>
      | None \<Rightarrow>
          (case upsert_company user_id domain (company_name_of domain) (st p) of
             (row, s') \<Rightarrow>
               p\<lparr>st := s',
                 domain_to_company_id :=
                   AList.update domain (company_id row) (domain_to_company_id p),
                 res := (res p)\<lparr>companies_created := companies_created (res p) + 1\<rparr>\<rparr>))"

definition upsert_companies :: "string \<Rightarrow> pstate \<Rightarrow> string list \<Rightarrow> pstate" where
  "upsert_companies user_id p business_domains = foldl (company_step user_id) p business_domains"

text \<open>Step 6, one turn of the loop over \<open>participant_emails\<close>.\<close>

definition customer_step ::
  "string \<Rightarrow> (string \<times> string) list \<Rightarrow> pstate \<Rightarrow> string \<Rightarrow> pstate" where
  "customer_step user_id email_to_domain p email =
     (case find_customer (st p) user_id email of
        Some c \<Rightarrow>
          (let p1 = p\<lparr>email_to_customer_id :=
                        AList.update email (customer_id c) (email_to_customer_id p),
                      res := (res p)\<lparr>pr_customers_found := pr_customers_found (res p) + 1\<rparr>\<rparr>
           in case map_of email_to_domain email of
                None \<Rightarrow> p1
              | Some domain \<Rightarrow>
                  if domain = [] then p1
                  else (case map_of (domain_to_company_id p) domain of
                          None \<Rightarrow> p1
                        | Some co \<Rightarrow>
                            p1\<lparr>st := update_customer_company (customer_id c) user_id co domain
                                       (st p)\<rparr>))
      | None \<Rightarrow>
          (let domain = (case map_of email_to_domain email of
                           None \<Rightarrow> None
                         | Some d \<Rightarrow> if d = [] then None else Some d);
               co = (case domain of
                         None \<Rightarrow> None
                       | Some d \<Rightarrow> map_of (domain_to_company_id p) d);
               local_part = (if CHR ''@'' \<in> set email then hd (split_on CHR ''@'' email)
                             else email)
           in case insert_customer user_id email local_part co domain (st p) of
                Inr (row, s') \<Rightarrow>
                  p\<lparr>st := s',
                    email_to_customer_id :=
                      AList.update email (customer_id row) (email_to_customer_id p),
                    res := (res p)\<lparr>pr_customers_created := pr_customers_created (res p) + 1\<rparr>\<rparr>
              | Inl DuplicateKey \<Rightarrow>
                  (case find_customer (st p) user_id email of
                     None \<Rightarrow> p
                   | Some c \<Rightarrow>
                       (let p1 = p\<lparr>email_to_customer_id :=
                                     AList.update email (customer_id c) (email_to_customer_id p),
                                   res := (res p)\<lparr>pr_customers_found :=
                                                    pr_customers_found (res p) + 1\<rparr>\<rparr>
                        in case (co, domain) of
                             (Some coid, Some d) \<Rightarrow>
                               p1\<lparr>st := update_customer_company (customer_id c) user_id
                                          coid d (st p)\<rparr>
                           | _ \<Rightarrow> p1))))"

definition upsert_customers ::
  "string \<Rightarrow> (string \<times> string) list \<Rightarrow> pstate \<Rightarrow> string list \<Rightarrow> pstate" where
  "upsert_customers user_id email_to_domain p participant_emails =
     foldl (customer_step user_id email_to_domain) p participant_emails"

text \<open>
  Step 7: one link per distinct company id; an insert refused by the unique key on
  thread and company is ignored.
\<close>

definition link_step :: "string \<Rightarrow> string \<Rightarrow> pstate \<Rightarrow> nat \<Rightarrow> pstate" where
  "link_step user_id thread_id p co =
     (if list_ex (\<lambda>l. l_thread_id l = thread_id \<and> l_company_id l = co) (link_rows (st p))
      then p
      else p\<lparr>st := (st p)\<lparr>link_rows := link_rows (st p) @
                      [\<lparr>l_thread_id = thread_id, l_company_id = co, l_user_id = user_id\<rparr>]\<rparr>,
             res := (res p)\<lparr>thread_company_links_created :=
                              thread_company_links_created (res p) + 1\<rparr>\<rparr>)"

definition process_thread_entities ::
  "(string \<Rightarrow> loads_result) \<Rightarrow> string \<Rightarrow> string \<Rightarrow> store \<Rightarrow> process_result \<times> store" where
  "process_thread_entities json_loads user_id thread_id s0 =
     (let r0 = \<lparr>pr_success = False, messages_processed = 0, emails_extracted = 0,
                 business_domains_found = 0, companies_created = 0, companies_found = 0,
                 pr_customers_created = 0, pr_customers_found = 0,
                 thread_company_links_created = 0\<rparr>;
          s1 = update_stage [thread_id] user_id ''resolving_entities'' s0;
          msgs = filter (\<lambda>m. m_thread_id m = thread_id \<and> m_user_id m = user_id) (message_rows s1)
      in if msgs = [] then
           (r0\<lparr>pr_success := True\<rparr>, update_stage [thread_id] user_id ''queued'' s1)
         else
           (let participant_emails = extract_participant_emails json_loads msgs;
                (business_domains, email_to_domain) = filter_business_domains participant_emails;
                r1 = r0\<lparr>messages_processed := length msgs,
                        emails_extracted := length participant_emails,
                        business_domains_found := length business_domains\<rparr>;
                p0 = \<lparr>st = s1, domain_to_company_id = [], email_to_customer_id = [], res = r1\<rparr>;
                p1 = upsert_companies user_id p0 business_domains;
                p2 = upsert_customers user_id email_to_domain p1 participant_emails;
                p3 = foldl (link_step user_id thread_id) p2
                       (remdups (map snd (domain_to_company_id p2)));
                s2 = update_stage [thread_id] user_id ''queued'' (st p3)
            in ((res p3)\<lparr>pr_success := True\<rparr>, s2)))"

section \<open>resolve_thread_entities (resolver.py)\<close>

datatype resolve_error =
    NoCompanyForCustomer string string
  | CustomerResolutionFailed string
  | TriggerFailed string

record resolve_result =
  rr_success :: bool
  processed_threads :: nat
  customers_created :: nat
  customers_found :: nat
  participants_linked :: nat
  jobs_triggered :: nat
  skipped_threads :: "(string \<times> string) list"
  rr_errors :: "resolve_error list"

record rstate =
  rs_store :: store
  rs_email_to_customer_id :: "(string \<times> nat) list"
  rs_result :: resolve_result

text \<open>Step 3: the participant emails of each thread, then without the tenant's own.\<close>

definition thread_emails_step ::
  "(string \<Rightarrow> loads_result) \<Rightarrow> (string \<times> string list) list \<Rightarrow> message
     \<Rightarrow> (string \<times> string list) list" where
  "thread_emails_step json_loads thread_emails m =
     (if m_thread_id m = [] then thread_emails
      else
        (let current = (case map_of thread_emails (m_thread_id m) of
                          None \<Rightarrow> []
                        | Some es \<Rightarrow> es)
         in AList.update (m_thread_id m) (message_emails json_loads current m) thread_emails))"

definition extract_thread_emails ::
  "(string \<Rightarrow> loads_result) \<Rightarrow> string option \<Rightarrow> message list \<Rightarrow> (string \<times> string list) list" where
  "extract_thread_emails json_loads user_email msgs =
     (let thread_emails = foldl (thread_emails_step json_loads) [] msgs
      in case user_email of
           None \<Rightarrow> thread_emails
         | Some own \<Rightarrow> map (\<lambda>(t, es). (t, removeAll own es)) thread_emails)"

text \<open>
  Step 4, one turn of the loop over \<open>all_unique_emails\<close>. A customer that has no row
  gets one only once a company id is at hand: the company of the email's domain is looked
  up, and inserted when it has no row, whatever the domain is.
\<close>

definition resolve_customer_step :: "string \<Rightarrow> rstate \<Rightarrow> string \<Rightarrow> rstate" where
  "resolve_customer_step user_id r email =
     (case find_customer (rs_store r) user_id email of
        Some c \<Rightarrow>
          r\<lparr>rs_email_to_customer_id :=
              AList.update email (customer_id c) (rs_email_to_customer_id r),
            rs_result := (rs_result r)\<lparr>customers_found := customers_found (rs_result r) + 1\<rparr>\<rparr>
      | None \<Rightarrow>
          (let domain = extract_domain_from_email email;
               local_part = extract_local_part_from_email email;
               company =
                 (if domain = [] then Inr (None, rs_store r)
                  else (case find_company (rs_store r) user_id domain of
                          Some c \<Rightarrow> Inr (Some (company_id c), rs_store r)
                        | None \<Rightarrow>
                            (case insert_company user_id domain (company_name_of domain)
                                    (rs_store r) of
                               Inl e \<Rightarrow> Inl e
                             | Inr (row, s') \<Rightarrow> Inr (Some (company_id row), s'))))
           in case company of
                Inl e \<Rightarrow>
                  r\<lparr>rs_result := (rs_result r)\<lparr>rr_errors :=
                        rr_errors (rs_result r) @ [CustomerResolutionFailed email]\<rparr>\<rparr>
              | Inr (None, s1) \<Rightarrow>
                  r\<lparr>rs_store := s1,
                    rs_result := (rs_result r)\<lparr>rr_errors :=
                        rr_errors (rs_result r) @ [NoCompanyForCustomer domain email]\<rparr>\<rparr>
              | Inr (Some coid, s1) \<Rightarrow>
                  (case insert_customer user_id email local_part (Some coid) (Some domain) s1 of
                     Inl e \<Rightarrow>
                       r\<lparr>rs_store := s1,
                         rs_result := (rs_result r)\<lparr>rr_errors :=
                             rr_errors (rs_result r) @ [CustomerResolutionFailed email]\<rparr>\<rparr>
                   | Inr (row, s2) \<Rightarrow>
                       r\<lparr>rs_store := s2,
                         rs_email_to_customer_id :=
                           AList.update email (customer_id row) (rs_email_to_customer_id r),
                         rs_result := (rs_result r)\<lparr>customers_created :=
                             customers_created (rs_result r) + 1\<rparr>\<rparr>)))"

definition resolve_customers :: "string \<Rightarrow> rstate \<Rightarrow> string list \<Rightarrow> rstate" where
  "resolve_customers user_id r all_unique_emails =
     foldl (resolve_customer_step user_id) r all_unique_emails"

text \<open>
  Step 5: the rows to link, and their upsert with \<open>ignore_duplicates\<close> on thread and
  customer.
\<close>

definition participants_to_insert ::
  "string \<Rightarrow> (string \<times> nat) list \<Rightarrow> (string \<times> string list) list \<Rightarrow> participant list" where
  "participants_to_insert user_id email_to_customer thread_emails =
     concat (map (\<lambda>(t, es).
        concat (map (\<lambda>e. case map_of email_to_customer e of
                            None \<Rightarrow> []
                          | Some cid \<Rightarrow>
                              [\<lparr>p_thread_id = t, p_customer_id = cid, p_user_id = user_id\<rparr>]) es))
        thread_emails)"

definition upsert_participant :: "store \<Rightarrow> participant \<Rightarrow> store" where
  "upsert_participant s p =
     (if list_ex (\<lambda>q. p_thread_id q = p_thread_id p \<and> p_customer_id q = p_customer_id p)
           (participant_rows s)
      then s else s\<lparr>participant_rows := participant_rows s @ [p]\<rparr>)"

text \<open>
  Step 6: the stage of each input thread as read back from the store (a later row of the
  answer overwrites an earlier one in the dict), and the decision taken on it.
\<close>

definition thread_stages :: "store \<Rightarrow> string \<Rightarrow> string list \<Rightarrow> (string \<times> string option) list" where
  "thread_stages s user_id thread_ids =
     foldl (\<lambda>d r. AList.update (sr_thread_id r) (current_stage r) d) []
       (filter (\<lambda>r. sr_thread_id r \<in> set thread_ids \<and> sr_user_id r = user_id) (stage_rows s))"

definition stage_get :: "(string \<times> string option) list \<Rightarrow> string \<Rightarrow> string option" where
  "stage_get d thread_id = (case map_of d thread_id of None \<Rightarrow> None | Some v \<Rightarrow> v)"

datatype gate_decision = Skip string | Process | ProcessUnknown

definition check_stage :: "string option \<Rightarrow> gate_decision" where
  "check_stage current =
     (case current of
        None \<Rightarrow> Process
      | Some stage \<Rightarrow>
          if stage \<in> set [''analyzing'', ''queued'', ''queued_for_analysis'']
          then Skip (''already in '' @ [CHR 0x27] @ stage @ [CHR 0x27] @ '' stage'')
          else if stage = ''completed'' then Skip ''already completed''
          else if stage \<in> set [''new'', ''pending'', ''resolving_entities''] then Process
          else ProcessUnknown)"

definition gate_step ::
  "(string \<times> string option) list \<Rightarrow> string list \<times> (string \<times> string) list \<Rightarrow> string
     \<Rightarrow> string list \<times> (string \<times> string) list" where
  "gate_step stages acc thread_id =
     (case check_stage (stage_get stages thread_id) of
        Skip reason \<Rightarrow> (fst acc, AList.update thread_id reason (snd acc))
      | Process \<Rightarrow> (fst acc @ [thread_id], snd acc)
      | ProcessUnknown \<Rightarrow> (fst acc @ [thread_id], snd acc))"

definition idempotency_gate ::
  "(string \<times> string option) list \<Rightarrow> string list \<Rightarrow> string list \<times> (string \<times> string) list" where
  "idempotency_gate stages thread_ids = foldl (gate_step stages) ([], []) thread_ids"

text \<open>
  Steps 6 and 7. \<open>trigger_analyze_thread_job\<close> leaves the process (an HTTP request,
  or the analysis job itself): the model is given whether each call returns
  (\<open>trigger thread_id\<close>) or raises, and answers with the list of calls made; what the
  job does to the store is not part of this function.
\<close>

record gate_outcome =
  go_result :: resolve_result
  go_store :: store
  go_triggered :: "string list"

definition queue_and_trigger ::
  "(string \<Rightarrow> bool) \<Rightarrow> string \<Rightarrow> string list \<Rightarrow> resolve_result \<Rightarrow> store \<Rightarrow> gate_outcome" where
  "queue_and_trigger trigger user_id thread_ids result s =
     (let (threads_to_process, skipped) =
            idempotency_gate (thread_stages s user_id thread_ids) thread_ids;
          r1 = (if skipped = [] then result else result\<lparr>skipped_threads := skipped\<rparr>)
      in if threads_to_process = [] then
           \<lparr>go_result = r1\<lparr>processed_threads := length thread_ids, jobs_triggered := 0\<rparr>,
            go_store = s, go_triggered = []\<rparr>
         else
           \<lparr>go_result =
              r1\<lparr>rr_errors := rr_errors r1 @
                     map TriggerFailed (filter (\<lambda>t. \<not> trigger t) threads_to_process),
                 processed_threads := length thread_ids,
                 jobs_triggered := length (filter trigger threads_to_process)\<rparr>,
            go_store = update_stage threads_to_process user_id ''queued'' s,
            go_triggered = threads_to_process\<rparr>)"

definition resolve_thread_entities ::
  "(string \<Rightarrow> loads_result) \<Rightarrow> (string \<Rightarrow> bool) \<Rightarrow> string \<Rightarrow> string list \<Rightarrow> store
     \<Rightarrow> gate_outcome" where
  "resolve_thread_entities json_loads trigger user_id thread_ids s0 =
     (let r0 = \<lparr>rr_success = True, processed_threads = 0, customers_created = 0,
                 customers_found = 0, participants_linked = 0, jobs_triggered = 0,
                 skipped_threads = [], rr_errors = []\<rparr>
      in if thread_ids = [] then \<lparr>go_result = r0, go_store = s0, go_triggered = []\<rparr>
         else
           (let s1 = update_stage thread_ids user_id ''resolving_entities'' s0;
                user_email =
                  (case map_of (profile_rows s1) user_id of
                     Some (Some e) \<Rightarrow> if e = [] then None else Some (lower e)
                   | _ \<Rightarrow> None);
                msgs = filter (\<lambda>m. m_thread_id m \<in> set thread_ids \<and> m_user_id m = user_id)
                         (message_rows s1)
            in if msgs = [] then
                 \<lparr>go_result = r0, go_store = update_stage thread_ids user_id ''analyzing'' s1,
                  go_triggered = []\<rparr>
               else
                 (let thread_emails = extract_thread_emails json_loads user_email msgs;
                      all_unique_emails = foldl set_update [] (map snd thread_emails);
                      r1 = resolve_customers user_id
                             \<lparr>rs_store = s1, rs_email_to_customer_id = [], rs_result = r0\<rparr>
                             all_unique_emails;
                      to_insert = participants_to_insert user_id (rs_email_to_customer_id r1)
                                    thread_emails;
                      s2 = foldl upsert_participant (rs_store r1) to_insert;
                      res2 = (if to_insert = [] then rs_result r1
                              else (rs_result r1)\<lparr>participants_linked := length to_insert\<rparr>)
                  in queue_and_trigger trigger user_id thread_ids res2 s2)))"

section \<open>analyze_thread (analyzer.py)\<close>

definition estimate_tokens :: "string \<Rightarrow> nat" where
  "estimate_tokens t = length t div 4"

text \<open>\<open>sep.join(parts)\<close>.\<close>

fun join :: "string \<Rightarrow> string list \<Rightarrow> string" where
  "join sep [] = []"
| "join sep [x] = x"
| "join sep (x # y # ys) = x @ sep @ join sep (y # ys)"

text \<open>\<open>xs[:j]\<close> and \<open>xs[i:]\<close>, with Python's reading of a negative bound.\<close>

definition slice_to :: "'a list \<Rightarrow> int \<Rightarrow> 'a list" where
  "slice_to xs j = take (clamp_index (length xs) j) xs"

definition slice_from :: "'a list \<Rightarrow> int \<Rightarrow> 'a list" where
  "slice_from xs i = drop (clamp_index (length xs) i) xs"

text \<open>
  Timestamps. \<open>datetime.fromisoformat\<close> is the library's and a parameter of the model:
  it answers with a datetime, naive or aware of its offset, or raises (\<open>None\<close>).
  Python orders two naive or two aware datetimes (here by their microsecond counts)
  and raises TypeError on a naive one against an aware one.
\<close>

datatype pydatetime = Naive int | Aware int

fun dt_gt :: "pydatetime \<Rightarrow> pydatetime \<Rightarrow> bool option" where
  "dt_gt (Naive a) (Naive b) = Some (a > b)"
| "dt_gt (Aware a) (Aware b) = Some (a > b)"
| "dt_gt (Naive a) (Aware b) = None"
| "dt_gt (Aware a) (Naive b) = None"

definition replace_Z :: "string \<Rightarrow> string" where
  "replace_Z t = concat (map (\<lambda>c. if c = CHR ''Z'' then ''+00:00'' else [c]) t)"

text \<open>
  The body of the incremental filter loop: does the message go into
  \<open>filtered_messages\<close>? The select does not fetch \<open>created_at\<close>, so the date is
  \<open>sent_date\<close> or nothing. Every exception of the \<open>try\<close> block includes the message.
\<close>

definition is_new_message :: "(string \<Rightarrow> pydatetime option) \<Rightarrow> string \<Rightarrow> message \<Rightarrow> bool" where
  "is_new_message fromisoformat last_analyzed m =
     (case sent_date m of
        None \<Rightarrow> True
      | Some d \<Rightarrow>
          if d = [] then True
          else (case fromisoformat (replace_Z d) of
                  None \<Rightarrow> True
                | Some msg_datetime \<Rightarrow>
                    (case fromisoformat (replace_Z last_analyzed) of
                       None \<Rightarrow> True
                     | Some last_analyzed_datetime \<Rightarrow>
                         (case dt_gt msg_datetime last_analyzed_datetime of
                            None \<Rightarrow> True
                          | Some newer \<Rightarrow> newer))))"

text \<open>\<open>msg.get("body_text", "") or msg.get("body_html", "")\<close>; \<open>None\<close> is Python's.\<close>

definition body_of :: "message \<Rightarrow> string option" where
  "body_of m =
     (case body_text m of
        None \<Rightarrow> body_html m
      | Some t \<Rightarrow> if t = [] then body_html m else Some t)"

text \<open>The participants dict: customer id to customer name and company name.\<close>

definition customer_display_name :: "customer \<Rightarrow> string" where
  "customer_display_name c =
     (if full_name c \<noteq> [] then full_name c
      else if cu_email c \<noteq> [] then hd (split_on CHR ''@'' (cu_email c))
      else ''Unknown'')"

definition company_display_name :: "store \<Rightarrow> customer \<Rightarrow> string" where
  "company_display_name s c =
     (case cu_company_id c of
        None \<Rightarrow> ''Unknown Company''
      | Some coid \<Rightarrow>
          (case List.find (\<lambda>co. company_id co = coid) (company_rows s) of
             None \<Rightarrow> ''Unknown Company''
           | Some co \<Rightarrow> company_name co))"

definition build_participants ::
  "store \<Rightarrow> string \<Rightarrow> string \<Rightarrow> (nat \<times> string \<times> string) list" where
  "build_participants s user_id thread_id =
     (let customer_ids = map p_customer_id
            (filter (\<lambda>p. p_thread_id p = thread_id) (participant_rows s))
      in foldl (\<lambda>d c. AList.update (customer_id c)
                        (customer_display_name c, company_display_name s c) d) []
           (filter (\<lambda>c. customer_id c \<in> set customer_ids \<and> cu_user_id c = user_id)
              (customer_rows s)))"

definition transcript_line :: "(nat \<times> string \<times> string) list \<Rightarrow> message \<Rightarrow> string option" where
  "transcript_line participants m =
     (case body_of m of
        None \<Rightarrow> None
      | Some body \<Rightarrow>
          if body = [] then None
          else
            (let info = (case m_customer_id m of
                           None \<Rightarrow> None
                         | Some cid \<Rightarrow> map_of participants cid);
                 customer_name = (case info of None \<Rightarrow> ''Unknown'' | Some (n, c) \<Rightarrow> n);
                 company = (case info of None \<Rightarrow> ''Unknown Company'' | Some (n, c) \<Rightarrow> c)
             in Some (customer_name @ '' ('' @ company @ ''): '' @ body)))"

definition blank_line :: string where
  "blank_line = [CHR 0x0A, CHR 0x0A]"

definition construct_transcript :: "message list \<Rightarrow> (nat \<times> string \<times> string) list \<Rightarrow> string" where
  "construct_transcript msgs participants =
     join blank_line (List.map_filter (transcript_line participants) msgs)"

definition truncation_marker :: string where
  "truncation_marker = ''[...Middle of conversation truncated for length...]''"

datatype analyze_error = ThreadNotFound | NoMessagesFound | BodyNotText | LLMResponseUnusable

text \<open>
  Steps 2 and 3. The estimate is taken of the bodies joined by single spaces; the join
  raises TypeError when a message has neither body (\<open>None\<close> among the bodies).
  \<open>int(n * 0.2)\<close> is \<open>n div 5\<close> for the length of any list: the double nearest to 0.2
  lies just above one fifth, and the product never rounds below a whole number.
\<close>

definition total_text :: "message list \<Rightarrow> string option" where
  "total_text msgs = map_option (join '' '') (those (map body_of msgs))"

definition build_transcript ::
  "message list \<Rightarrow> (nat \<times> string \<times> string) list \<Rightarrow> analyze_error + string" where
  "build_transcript msgs participants =
     (case total_text msgs of
        None \<Rightarrow> Inl BodyNotText
      | Some t \<Rightarrow>
          if estimate_tokens t > 100000 then
            (let total_messages = length msgs;
                 first_20_percent = total_messages div 5;
                 last_20_percent = total_messages div 5
             in Inr (join blank_line
                  (List.map_filter (transcript_line participants)
                     (slice_to msgs (int first_20_percent))
                   @ [truncation_marker]
                   @ List.map_filter (transcript_line participants)
                       (slice_from msgs (- int last_20_percent)))))
          else Inr (construct_transcript msgs participants))"

text \<open>
  The LLM. The fixed instruction text of the two prompts is left out: a prompt is its
  mode, the prior summary it embeds and the transcript. The model call with
  \<open>json.loads\<close> on its answer is a parameter: \<open>None\<close> when the call raises, the
  answer is empty or it is not a JSON object; a JSON \<open>null\<close> field is \<open>None\<close>.
\<close>

datatype prompt = FullPrompt string | IncrementalPrompt string string

record llm_step =
  ls_text :: "string option"
  ls_owner :: "string option"
  ls_due_date :: "string option"

record llm_feature =
  lf_title :: "string option"
  lf_customer_description :: "string option"
  lf_use_case :: "string option"
  lf_urgency :: "string option"
  lf_urgency_signals :: "string option"
  lf_customer_impact :: "string option"

record llm_analysis =
  la_problem_statement :: "string option"
  la_timeline_summary :: "string option"
  la_customer_sentiment :: "string option"
  la_sentiment_score :: "int option"
  la_resolution_status :: "string option"
  la_next_steps :: "llm_step list"
  la_feature_requests :: "llm_feature list"

definition truthy :: "string option \<Rightarrow> bool" where
  "truthy v = (case v of None \<Rightarrow> False | Some t \<Rightarrow> t \<noteq> [])"

text \<open>
  The update of the thread row: a value that is \<open>None\<close> is dropped from the update and
  the column keeps what it had; \<open>last_analyzed_at\<close> is always written.
\<close>

definition keep_or :: "'a option \<Rightarrow> 'a option \<Rightarrow> 'a option" where
  "keep_or new old = (case new of None \<Rightarrow> old | Some v \<Rightarrow> Some v)"

definition update_thread :: "string \<Rightarrow> string \<Rightarrow> string \<Rightarrow> llm_analysis \<Rightarrow> store \<Rightarrow> store" where
  "update_thread user_id thread_id now a s =
     (let new_summary =
            (if truthy (la_timeline_summary a) then la_timeline_summary a
             else if truthy (la_problem_statement a) then la_problem_statement a
             else None)
      in s\<lparr>thread_rows :=
            map (\<lambda>t. if t_thread_id t = thread_id \<and> t_user_id t = user_id
                     then t\<lparr>summary := keep_or new_summary (summary t),
                            sentiment := keep_or (la_customer_sentiment a) (sentiment t),
                            sentiment_score := keep_or (la_sentiment_score a) (sentiment_score t),
                            resolution_status :=
                              keep_or (la_resolution_status a) (resolution_status t),
                            t_problem_statement :=
                              keep_or (la_problem_statement a) (t_problem_statement t),
                            t_timeline_summary :=
                              keep_or (la_timeline_summary a) (t_timeline_summary t),
                            last_analyzed_at := Some now\<rparr>
                     else t)
              (thread_rows s)\<rparr>)"

text \<open>
  \<open>check_next_step_exists\<close>: is there a stored next step of the thread whose
  description, lower-cased and stripped, equals the given one's?
\<close>

definition check_next_step_exists :: "store \<Rightarrow> string \<Rightarrow> string \<Rightarrow> bool" where
  "check_next_step_exists s thread_id descr =
     (if descr = [] then False
      else
        (let description_lower = strip (lower descr)
         in list_ex (\<lambda>step. description step \<noteq> []
                            \<and> strip (lower (description step)) = description_lower)
              (filter (\<lambda>step. ns_thread_id step = thread_id) (next_step_rows s))))"

definition check_feature_request_exists :: "store \<Rightarrow> string \<Rightarrow> string \<Rightarrow> bool" where
  "check_feature_request_exists s thread_id title =
     (if title = [] then False
      else
        (let title_lower = strip (lower title)
         in list_ex (\<lambda>fr. fr_title fr \<noteq> [] \<and> strip (lower (fr_title fr)) = title_lower)
              (filter (\<lambda>fr. fr_thread_id fr = thread_id) (feature_request_rows s))))"

text \<open>
  \<open>parse_due_date\<close>; \<open>strptime\<close> stands for \<open>datetime.strptime(_, "%Y-%m-%d")\<close>
  followed by \<open>isoformat()\<close>, \<open>None\<close> when it raises.
\<close>

definition parse_due_date :: "(string \<Rightarrow> string option) \<Rightarrow> string option \<Rightarrow> string option" where
  "parse_due_date strptime date_str =
     (case date_str of
        None \<Rightarrow> None
      | Some d \<Rightarrow> if d = [] then None else strptime (strip d))"

text \<open>
  The loop that fills \<open>next_steps_to_insert\<close>: every duplicate check reads the store,
  which the loop does not write; the rows go in with one insert after the loop. A row
  waiting for its key carries key 0.
\<close>

definition next_step_loop ::
  "(string \<Rightarrow> string option) \<Rightarrow> store \<Rightarrow> string \<Rightarrow> string \<Rightarrow> next_step list \<Rightarrow> llm_step
     \<Rightarrow> next_step list" where
  "next_step_loop strptime s user_id thread_id to_insert step =
     (case ls_text step of
        None \<Rightarrow> to_insert
      | Some descr \<Rightarrow>
          if descr = [] then to_insert
          else if check_next_step_exists s thread_id descr then to_insert
          else to_insert @
            [\<lparr>step_id = 0, ns_thread_id = thread_id, ns_user_id = user_id,
              description = descr,
              ns_owner = (if truthy (ls_owner step) then ls_owner step else None),
              ns_due_date = parse_due_date strptime (ls_due_date step),
              ns_status = ''pending''\<rparr>])"

definition number_rows :: "nat \<Rightarrow> next_step list \<Rightarrow> next_step list" where
  "number_rows k rows = map (\<lambda>(i, r). r\<lparr>step_id := k + i\<rparr>) (enumerate 0 rows)"

definition persist_next_steps ::
  "(string \<Rightarrow> string option) \<Rightarrow> string \<Rightarrow> string \<Rightarrow> llm_step list \<Rightarrow> store \<Rightarrow> store" where
  "persist_next_steps strptime user_id thread_id next_steps_data s =
     (let to_insert = foldl (next_step_loop strptime s user_id thread_id) [] next_steps_data
      in if to_insert = [] then s
         else
           (let inserted = number_rows (next_key s) to_insert;
                customer_ids = remdups (map p_customer_id
                  (filter (\<lambda>p. p_thread_id p = thread_id \<and> p_user_id p = user_id)
                     (participant_rows s)));
                assignments = concat (map (\<lambda>step.
                  map (\<lambda>cid. \<lparr>next_step_id = step_id step, a_customer_id = cid\<rparr>) customer_ids)
                  inserted)
            in s\<lparr>next_step_rows := next_step_rows s @ inserted,
                 assignment_rows := assignment_rows s @ assignments,
                 next_key := next_key s + length to_insert\<rparr>))"

definition feature_request_loop ::
  "store \<Rightarrow> string \<Rightarrow> string \<Rightarrow> feature_request list \<Rightarrow> llm_feature \<Rightarrow> feature_request list" where
  "feature_request_loop s user_id thread_id to_insert fr =
     (case lf_title fr of
        None \<Rightarrow> to_insert
      | Some title \<Rightarrow>
          if title = [] then to_insert
          else if check_feature_request_exists s thread_id title then to_insert
          else to_insert @
            [\<lparr>fr_thread_id = thread_id, fr_user_id = user_id, fr_title = title,
              customer_description = lf_customer_description fr,
              use_case = lf_use_case fr,
              urgency = (if lf_urgency fr \<in> set [Some ''Low'', Some ''Medium'', Some ''High'']
                         then lf_urgency fr else Some ''Low''),
              urgency_signals = lf_urgency_signals fr,
              customer_impact = lf_customer_impact fr,
              fr_status = ''new''\<rparr>])"

definition persist_feature_requests ::
  "string \<Rightarrow> string \<Rightarrow> llm_feature list \<Rightarrow> store \<Rightarrow> store" where
  "persist_feature_requests user_id thread_id feature_requests_data s =
     s\<lparr>feature_request_rows := feature_request_rows s @
         foldl (feature_request_loop s user_id thread_id) [] feature_requests_data\<rparr>"

record analysis_info =
  ai_mode :: string
  ai_problem_statement :: "string option"
  ai_timeline_summary :: "string option"
  ai_sentiment :: "string option"
  ai_sentiment_score :: "int option"
  ai_resolution_status :: "string option"
  ai_next_steps_count :: nat
  ai_feature_requests_count :: nat
  ai_last_analyzed_at :: string

text \<open>
  \<open>result["analysis"]\<close>: absent, the short dict of a skipped run (mode, skipped,
  reason), or the dict of a finished one.
\<close>

datatype analysis_field = NoAnalysis | SkippedAnalysis string bool string | Analyzed analysis_info

record analyze_result =
  ar_success :: bool
  ar_thread_id :: string
  ar_errors :: "analyze_error list"
  ar_analysis :: analysis_field

record analyze_outcome =
  ao_result :: analyze_result
  ao_store :: store
  ao_prompts :: "prompt list"

definition analysis_failed :: "string \<Rightarrow> string \<Rightarrow> analyze_error \<Rightarrow> prompt list \<Rightarrow> store \<Rightarrow> analyze_outcome" where
  "analysis_failed user_id thread_id e prompts s =
     \<lparr>ao_result = \<lparr>ar_success = False, ar_thread_id = thread_id, ar_errors = [e],
                    ar_analysis = NoAnalysis\<rparr>,
      ao_store = update_stage [thread_id] user_id ''failed'' s,
      ao_prompts = prompts\<rparr>"

text \<open>
  The environment of a run: the two library parsers, the clock
  (\<open>datetime.now().isoformat()\<close>) and the LLM.
\<close>

record environment =
  fromisoformat :: "string \<Rightarrow> pydatetime option"
  strptime_date :: "string \<Rightarrow> string option"
  now_iso :: string
  llm :: "prompt \<Rightarrow> llm_analysis option"

text \<open>
  \<open>analyze_thread\<close>. The select of the messages is ordered by \<open>sent_date\<close>; the table
  of the model holds a thread's messages in that order. The recalculation of the
  companies' health scores at the end is a remote procedure with no effect on these
  tables and is left out.
\<close>

definition analyze_thread :: "environment \<Rightarrow> string \<Rightarrow> string \<Rightarrow> store \<Rightarrow> analyze_outcome" where
  "analyze_thread env user_id thread_id s =
     (case List.find (\<lambda>t. t_thread_id t = thread_id \<and> t_user_id t = user_id) (thread_rows s) of
        None \<Rightarrow> analysis_failed user_id thread_id ThreadNotFound [] s
      | Some thread_data \<Rightarrow>
          (let all_messages = filter (\<lambda>m. m_thread_id m = thread_id \<and> m_user_id m = user_id)
                                (message_rows s);
               analysis_mode = (if last_analyzed_at thread_data = None then ''full''
                                else ''incremental'');
               msgs = (case last_analyzed_at thread_data of
                         None \<Rightarrow> all_messages
                       | Some last_at \<Rightarrow>
                           filter (is_new_message (fromisoformat env) last_at) all_messages)
           in if all_messages = [] then analysis_failed user_id thread_id NoMessagesFound [] s
              else if msgs = [] then
                \<lparr>ao_result = \<lparr>ar_success = True, ar_thread_id = thread_id, ar_errors = [],
                               ar_analysis = SkippedAnalysis ''incremental'' True
                                               ''No new messages''\<rparr>,
                 ao_store = update_stage [thread_id] user_id ''completed'' s,
                 ao_prompts = []\<rparr>
              else
                (case build_transcript msgs (build_participants s user_id thread_id) of
                   Inl e \<Rightarrow> analysis_failed user_id thread_id e [] s
                 | Inr transcript \<Rightarrow>
                     (let full_prompt =
                            (if analysis_mode = ''incremental''
                             then IncrementalPrompt
                                    (case summary thread_data of
                                       None \<Rightarrow> ''No previous summary''
                                     | Some old \<Rightarrow>
                                         if old = [] then ''No previous summary'' else old)
                                    transcript
                             else FullPrompt transcript)
                      in case llm env full_prompt of
                           None \<Rightarrow>
                             analysis_failed user_id thread_id LLMResponseUnusable [full_prompt] s
                         | Some a \<Rightarrow>
                             (let s1 = update_thread user_id thread_id (now_iso env) a s;
                                  s2 = persist_next_steps (strptime_date env) user_id thread_id
                                         (la_next_steps a) s1;
                                  s3 = persist_feature_requests user_id thread_id
                                         (la_feature_requests a) s2;
                                  s4 = update_stage [thread_id] user_id ''completed'' s3
                              in \<lparr>ao_result =
                                    \<lparr>ar_success = True, ar_thread_id = thread_id, ar_errors = [],
                                     ar_analysis = Analyzed
                                       \<lparr>ai_mode = analysis_mode,
                                        ai_problem_statement = la_problem_statement a,
                                        ai_timeline_summary = la_timeline_summary a,
                                        ai_sentiment = la_customer_sentiment a,
                                        ai_sentiment_score = la_sentiment_score a,
                                        ai_resolution_status = la_resolution_status a,
                                        ai_next_steps_count = length (la_next_steps a),
                                        ai_feature_requests_count =
                                          length (la_feature_requests a),
                                        ai_last_analyzed_at = now_iso env\<rparr>\<rparr>,
                                  ao_store = s4,
                                  ao_prompts = [full_prompt]\<rparr>)))))"

section \<open>Properties and example data\<close>

text \<open>
  The keys of the customers table, and what resolution may do to a customer row it finds:
  leave it, or set its company id and domain match to a company resolved for the domain
  of one of the emails \<open>es\<close>.
\<close>

definition customer_keys :: "store \<Rightarrow> (string \<times> string) list" where
  "customer_keys s = map (\<lambda>c. (cu_email c, cu_user_id c)) (customer_rows s)"

definition improves ::
  "(string \<times> string) list \<Rightarrow> (string \<times> nat) list \<Rightarrow> string list \<Rightarrow> customer \<Rightarrow> customer \<Rightarrow> bool" where
  "improves e2d d2c es c c' \<longleftrightarrow>
     c' = c \<or> (\<exists>e \<in> set es. \<exists>d coid. map_of e2d e = Some d \<and> d \<noteq> [] \<and> map_of d2c d = Some coid
                 \<and> c' = c\<lparr>cu_company_id := Some coid, domain_match := Some d\<rparr>)"

definition empty_store :: store where
  "empty_store =
     \<lparr>profile_rows = [], stage_rows = [], thread_rows = [], message_rows = [],
      company_rows = [], customer_rows = [], participant_rows = [], link_rows = [],
      next_step_rows = [], feature_request_rows = [], assignment_rows = [], next_key = 1\<rparr>"

definition mail :: "string \<Rightarrow> string \<Rightarrow> jsonb \<Rightarrow> message" where
  "mail mid sender recipients =
     \<lparr>message_id = mid, m_thread_id = ''t1'', m_user_id = ''u1'',
      from_address = Some sender, to_addresses = recipients, cc_addresses = JNull,
      body_text = Some ''hello'', body_html = None,
      sent_date = Some ''2024-01-01T00:00:00+00:00'', m_customer_id = None\<rparr>"

definition webmail_thread :: store where
  "webmail_thread =
     empty_store\<lparr>message_rows :=
       [mail ''m1'' ''Bob <bob@gmail.com>'' JNull, mail ''m2'' ''alice@acme.io'' JNull]\<rparr>"

definition undisclosed_thread :: store where
  "undisclosed_thread =
     empty_store\<lparr>message_rows :=
       [mail ''m1'' ''alice@acme.io'' (JArray [''undisclosed-recipients:;''])]\<rparr>"

definition initial_pstate :: "store \<Rightarrow> pstate" where
  "initial_pstate s =
     \<lparr>st = s, domain_to_company_id = [], email_to_customer_id = [],
      res = \<lparr>pr_success = False, messages_processed = 0, emails_extracted = 0,
             business_domains_found = 0, companies_created = 0, companies_found = 0,
             pr_customers_created = 0, pr_customers_found = 0,
             thread_company_links_created = 0\<rparr>\<rparr>"

definition initial_rstate :: "store \<Rightarrow> rstate" where
  "initial_rstate s =
     \<lparr>rs_store = s, rs_email_to_customer_id = [],
      rs_result = \<lparr>rr_success = True, processed_threads = 0, customers_created = 0,
                   customers_found = 0, participants_linked = 0, jobs_triggered = 0,
                   skipped_threads = [], rr_errors = []\<rparr>\<rparr>"

definition known_customers_thread :: store where
  "known_customers_thread =
     webmail_thread\<lparr>customer_rows :=
       [\<lparr>customer_id = 11, cu_user_id = ''u1'', cu_email = ''bob@gmail.com'',
         full_name = ''Bob'', cu_company_id = Some 9, domain_match = Some ''bobs.example'',
         cu_status = ''active''\<rparr>,
        \<lparr>customer_id = 12, cu_user_id = ''u1'', cu_email = ''alice@acme.io'',
         full_name = ''Alice'', cu_company_id = None, domain_match = None,
         cu_status = ''prospect''\<rparr>],
       next_key := 20\<rparr>"

text \<open>
  The reason the gate gives for skipping a thread, if it skips it, and the threads it
  lets through.
\<close>

definition skip_reason :: "(string \<times> string option) list \<Rightarrow> string \<Rightarrow> string option" where
  "skip_reason stages thread_id =
     (case check_stage (stage_get stages thread_id) of
        Skip reason \<Rightarrow> Some reason
      | Process \<Rightarrow> None
      | ProcessUnknown \<Rightarrow> None)"

definition eligible :: "(string \<times> string option) list \<Rightarrow> string \<Rightarrow> bool" where
  "eligible stages thread_id = (skip_reason stages thread_id = None)"

definition staged_store :: store where
  "staged_store =
     empty_store\<lparr>stage_rows :=
       [\<lparr>sr_thread_id = ''t1'', sr_user_id = ''u1'', current_stage = Some ''queued''\<rparr>,
        \<lparr>sr_thread_id = ''t2'', sr_user_id = ''u1'', current_stage = Some ''new''\<rparr>,
        \<lparr>sr_thread_id = ''t3'', sr_user_id = ''u1'', current_stage = Some ''completed''\<rparr>,
        \<lparr>sr_thread_id = ''t4'', sr_user_id = ''u1'', current_stage = Some ''imported''\<rparr>]\<rparr>"

text \<open>
  The row one item of the LLM's next steps contributes to \<open>next_steps_to_insert\<close>,
  if any; then a thread, timestamps, LLM answers and runs for the examples.
\<close>

definition pending_row ::
  "(string \<Rightarrow> string option) \<Rightarrow> store \<Rightarrow> string \<Rightarrow> string \<Rightarrow> llm_step \<Rightarrow> next_step option" where
  "pending_row strptime s user_id thread_id step =
     (case ls_text step of
        None \<Rightarrow> None
      | Some descr \<Rightarrow>
          if descr = [] \<or> check_next_step_exists s thread_id descr then None
          else Some \<lparr>step_id = 0, ns_thread_id = thread_id, ns_user_id = user_id,
                     description = descr,
                     ns_owner = (if truthy (ls_owner step) then ls_owner step else None),
                     ns_due_date = parse_due_date strptime (ls_due_date step),
                     ns_status = ''pending''\<rparr>)"

definition example_thread :: thread_row where
  "example_thread =
     \<lparr>t_thread_id = ''t1'', t_user_id = ''u1'', last_analyzed_at = None, summary = None,
      sentiment = None, sentiment_score = None, resolution_status = None,
      t_problem_statement = None, t_timeline_summary = None\<rparr>"

definition thread_store :: store where
  "thread_store = webmail_thread\<lparr>thread_rows := [example_thread]\<rparr>"

definition iso_table :: "(string \<times> pydatetime) list" where
  "iso_table =
     [(''2023-12-01T00:00:00+00:00'', Aware 1701388800000000),
      (''2024-01-01T00:00:00+00:00'', Aware 1704067200000000),
      (''2024-06-01T00:00:00'', Naive 1717200000000000),
      (''2024-06-01T00:00:00+00:00'', Aware 1717200000000000)]"

definition step_of :: "string \<Rightarrow> llm_step" where
  "step_of d = \<lparr>ls_text = Some d, ls_owner = None, ls_due_date = None\<rparr>"

definition answer :: "llm_step list \<Rightarrow> llm_analysis" where
  "answer steps =
     \<lparr>la_problem_statement = Some ''Contract review'',
      la_timeline_summary = Some ''Legal was asked to review the contract'',
      la_customer_sentiment = Some ''Neutral'', la_sentiment_score = Some 0,
      la_resolution_status = Some ''In Progress'',
      la_next_steps = steps, la_feature_requests = []\<rparr>"

definition env_with :: "string \<Rightarrow> llm_step list \<Rightarrow> environment" where
  "env_with now steps =
     \<lparr>fromisoformat = map_of iso_table, strptime_date = (\<lambda>d. None), now_iso = now,
      llm = (\<lambda>p. Some (answer steps))\<rparr>"

definition first_run :: analyze_outcome where
  "first_run =
     analyze_thread (env_with ''2023-12-01T00:00:00+00:00'' [step_of ''Follow up with legal''])
       ''u1'' ''t1'' thread_store"

definition second_run :: analyze_outcome where
  "second_run =
     analyze_thread (env_with ''2024-06-01T00:00:00+00:00'' [step_of ''follow up with legal  ''])
       ''u1'' ''t1'' (ao_store first_run)"

definition batch_run :: analyze_outcome where
  "batch_run =
     analyze_thread (env_with ''2024-06-01T00:00:00+00:00''
         [step_of ''Send the contract'', step_of ''send the contract ''])
       ''u1'' ''t1'' thread_store"




definition long_body :: string where
  "long_body = replicate 400004 (CHR ''a'')"

definition long_message :: message where
  "long_message = (mail ''m1'' ''alice@acme.io'' JNull)\<lparr>body_text := Some long_body\<rparr>"

definition long_thread_store :: store where
  "long_thread_store = thread_store\<lparr>message_rows := [long_message]\<rparr>"

section \<open>Facts about the string operations\<close>

lemma find_from_append:
  "c \<notin> set pre \<Longrightarrow> find_from c (pre @ c # rest) i = i + int (length pre)"
  by (induction pre arbitrary: i) auto

lemma find_first: "c \<notin> set pre \<Longrightarrow> str_find (pre @ c # rest) c = int (length pre)"
  by (simp add: str_find_def find_from_append)

lemma slice_nonneg:
  "slice s (int a) (int b) =
     take (min (length s) b - min (length s) a) (drop (min (length s) a) s)"
  by (simp add: slice_def clamp_index_def Let_def)

lemma slice_middle:
  "slice (pre @ x # mid @ y # post) (int (length pre) + 1) (int (length pre + 1 + length mid)) = mid"
proof -
  have "slice (pre @ x # mid @ y # post) (int (length pre + 1))
          (int (length pre + 1 + length mid)) = mid"
    unfolding slice_nonneg by simp
  then show ?thesis by (simp add: add.commute)
qed

lemma slice_empty: "b \<le> a \<Longrightarrow> slice s (int a) (int b) = []"
  unfolding slice_nonneg by simp

lemma strip_Nil: "strip [] = []"
  by (simp add: strip_def)

lemma split_on_not_Nil: "split_on c s \<noteq> []"
  by (induction s) (auto split: list.splits)

lemma split_on_append:
  "c \<notin> set pre \<Longrightarrow> split_on c (pre @ c # rest) = pre # split_on c rest"
  by (induction pre) auto

lemma hd_split_on: "hd (split_on c s) = takeWhile (\<lambda>x. x \<noteq> c) s"
  by (induction s) (auto split: list.splits simp: split_on_not_Nil)

lemma split_on_length: "c \<in> set s \<Longrightarrow> 2 \<le> length (split_on c s)"
  by (induction s) (auto split: list.splits simp: split_on_not_Nil)

lemma split_on_second:
  assumes "c \<notin> set pre"
  shows "split_on c (pre @ c # rest) ! 1 = takeWhile (\<lambda>x. x \<noteq> c) rest"
proof -
  have "split_on c (pre @ c # rest) ! 1 = hd (split_on c rest)"
    using assms by (simp add: split_on_append hd_conv_nth split_on_not_Nil)
  then show ?thesis by (simp add: hd_split_on)
qed


section \<open>Identity extraction: address parsing and domains\<close>

lemma bracket_case:
  assumes "CHR ''<'' \<notin> set pre" "CHR ''>'' \<notin> set pre" "CHR ''>'' \<notin> set mid"
  shows "extract_email_from_address (Some (pre @ CHR ''<'' # mid @ CHR ''>'' # post))
           = Some (strip mid)"
proof -
  let ?a = "pre @ CHR ''<'' # mid @ CHR ''>'' # post"
  have f1: "str_find ?a CHR ''<'' = int (length pre)"
    using assms(1) by (rule find_first)
  have "?a = (pre @ CHR ''<'' # mid) @ CHR ''>'' # post" by simp
  moreover have "CHR ''>'' \<notin> set (pre @ CHR ''<'' # mid)" using assms by simp
  ultimately have f2: "str_find ?a CHR ''>'' = int (length (pre @ CHR ''<'' # mid))"
    using find_first by metis
  have "slice ?a (str_find ?a CHR ''<'' + 1) (str_find ?a CHR ''>'') = mid"
    unfolding f1 f2 using slice_middle[of pre "CHR ''<''" mid "CHR ''>''" post] by simp
  then show ?thesis
    by (simp add: extract_email_from_address_def Let_def)
qed

lemma reversed_case:
  assumes "CHR ''<'' \<notin> set pre" "CHR ''>'' \<notin> set pre" "CHR ''<'' \<in> set rest"
  shows "extract_email_from_address (Some (pre @ CHR ''>'' # rest)) = Some []"
proof -
  let ?a = "pre @ CHR ''>'' # rest"
  obtain r1 r2 where r: "rest = r1 @ CHR ''<'' # r2" "CHR ''<'' \<notin> set r1"
    using assms(3) by (meson split_list_first)
  have "?a = (pre @ CHR ''>'' # r1) @ CHR ''<'' # r2" using r by simp
  moreover have "CHR ''<'' \<notin> set (pre @ CHR ''>'' # r1)" using assms r by simp
  ultimately have f1: "str_find ?a CHR ''<'' = int (length (pre @ CHR ''>'' # r1))"
    using find_first by metis
  have f2: "str_find ?a CHR ''>'' = int (length pre)"
    using assms(2) by (rule find_first)
  have "slice ?a (str_find ?a CHR ''<'' + 1) (str_find ?a CHR ''>'') = []"
  proof -
    have e: "str_find ?a CHR ''<'' + 1 = int (length pre + length r1 + 2)"
      unfolding f1 by simp
    have "slice ?a (int (length pre + length r1 + 2)) (int (length pre)) = []"
      by (rule slice_empty) simp
    then show ?thesis unfolding f2 e .
  qed
  moreover have "CHR ''<'' \<in> set ?a" "CHR ''>'' \<in> set ?a" using assms by auto
  ultimately show ?thesis
    by (simp add: extract_email_from_address_def Let_def strip_Nil)
qed

text \<open>
  Claim C7, as the code has it. \<open>None\<close> and the empty string give no result. For a
  string that holds both \<open><\<close> and \<open>>\<close>: when its first \<open>>\<close> stands after its first
  \<open><\<close>, the result is the text between the first \<open><\<close> and the first \<open>>\<close>, stripped of
  surrounding whitespace; when its first \<open>>\<close> stands before its first \<open><\<close>, the result
  is the empty string, whether or not another \<open>>\<close> follows. A non-empty string that
  lacks \<open><\<close> or lacks \<open>>\<close> is returned stripped. These cases cover every input, and the
  function has no raising branch: each Python operation it uses (\<open>in\<close>, \<open>find\<close>,
  slicing, \<open>strip\<close>) is total on strings. The two examples of the claim hold.
\<close>

theorem extract_email_from_address_cases:
  "extract_email_from_address None = None
   \<and> extract_email_from_address (Some []) = None
   \<and> (\<forall>pre mid post.
        CHR ''<'' \<notin> set pre \<and> CHR ''>'' \<notin> set pre \<and> CHR ''>'' \<notin> set mid \<longrightarrow>
        extract_email_from_address (Some (pre @ CHR ''<'' # mid @ CHR ''>'' # post))
          = Some (strip mid))
   \<and> (\<forall>pre rest.
        CHR ''<'' \<notin> set pre \<and> CHR ''>'' \<notin> set pre \<and> CHR ''<'' \<in> set rest \<longrightarrow>
        extract_email_from_address (Some (pre @ CHR ''>'' # rest)) = Some [])
   \<and> (\<forall>a. a \<noteq> [] \<and> \<not> (CHR ''<'' \<in> set a \<and> CHR ''>'' \<in> set a) \<longrightarrow>
        extract_email_from_address (Some a) = Some (strip a))
   \<and> extract_email_from_address (Some ''Name <a@b.com>'') = Some ''a@b.com''
   \<and> extract_email_from_address (Some ''a@b.com'') = Some ''a@b.com''"
proof (intro conjI allI impI)
  show "extract_email_from_address None = None"
    by (simp add: extract_email_from_address_def)
  show "extract_email_from_address (Some []) = None"
    by (simp add: extract_email_from_address_def)
  show "extract_email_from_address (Some ''Name <a@b.com>'') = Some ''a@b.com''"
    by code_simp
  show "extract_email_from_address (Some ''a@b.com'') = Some ''a@b.com''"
    by code_simp
next
  fix pre mid post
  assume "CHR ''<'' \<notin> set pre \<and> CHR ''>'' \<notin> set pre \<and> CHR ''>'' \<notin> set mid"
  then show "extract_email_from_address (Some (pre @ CHR ''<'' # mid @ CHR ''>'' # post))
          = Some (strip mid)"
    by (simp add: bracket_case)
next
  fix pre rest
  assume "CHR ''<'' \<notin> set pre \<and> CHR ''>'' \<notin> set pre \<and> CHR ''<'' \<in> set rest"
  then show "extract_email_from_address (Some (pre @ CHR ''>'' # rest)) = Some []"
    by (simp add: reversed_case)
next
  fix a :: string
  assume "a \<noteq> [] \<and> \<not> (CHR ''<'' \<in> set a \<and> CHR ''>'' \<in> set a)"
  then show "extract_email_from_address (Some a) = Some (strip a)"
    by (auto simp add: extract_email_from_address_def)
qed

theorem extract_email_from_address_cases_witness:
  "extract_email_from_address (Some ''Name < a@b.com >'') = Some ''a@b.com''
   \<and> extract_email_from_address (Some ''a>b<c'') = Some []
   \<and> extract_email_from_address (Some '' a@b.com '') = Some ''a@b.com''"
proof -
  note cases = extract_email_from_address_cases
  have s: "strip '' a@b.com '' = ''a@b.com''" by code_simp
  have 1: "extract_email_from_address (Some ''Name < a@b.com >'') = Some (strip '' a@b.com '')"
    using cases [THEN conjunct2, THEN conjunct2, THEN conjunct1, rule_format,
        of "''Name ''" "'' a@b.com ''" "[]"]
    by simp
  have 2: "extract_email_from_address (Some ''a>b<c'') = Some []"
    using cases [THEN conjunct2, THEN conjunct2, THEN conjunct2, THEN conjunct1, rule_format,
        of "''a''" "''b<c''"]
    by simp
  have 3: "extract_email_from_address (Some '' a@b.com '') = Some (strip '' a@b.com '')"
    using cases [THEN conjunct2, THEN conjunct2, THEN conjunct2, THEN conjunct2,
        THEN conjunct1, rule_format, of "'' a@b.com ''"]
    by simp
  show ?thesis using 1 2 3 s by simp
qed

text \<open>
  The text strictly between the brackets of \<open>Name < a@b.com >\<close> has a space at each
  end; the function returns it without them.
\<close>

theorem extract_email_from_address_not_verbatim:
  "extract_email_from_address (Some ''Name < a@b.com >'') = Some ''a@b.com''
   \<and> extract_email_from_address (Some ''Name < a@b.com >'') \<noteq> Some '' a@b.com ''"
  by code_simp

lemma domain_between:
  assumes "CHR ''@'' \<notin> set local"
  shows "extract_domain_from_email (local @ CHR ''@'' # rest)
           = lower (takeWhile (\<lambda>x. x \<noteq> CHR ''@'') rest)"
  unfolding extract_domain_from_email_def using split_on_second[OF assms, of rest] by simp

lemma business_step_keys:
  "map_of (snd (business_step acc e)) x = Some d \<Longrightarrow>
     map_of (snd acc) x = Some d \<or> (x = e \<and> d = extract_domain_from_email e \<and> d \<noteq> [] \<and> is_business_domain d)"
  by (auto simp: business_step_def Let_def update_conv' split: if_splits)

lemma business_step_domains:
  "d \<in> set (fst (business_step acc e)) \<Longrightarrow>
     d \<in> set (fst acc) \<or> (d = extract_domain_from_email e \<and> d \<noteq> [] \<and> is_business_domain d)"
  by (auto simp: business_step_def Let_def set_add_def split: if_splits)

lemma foldl_business_keys:
  "map_of (snd (foldl business_step acc es)) x = Some d \<Longrightarrow>
     map_of (snd acc) x = Some d
     \<or> (x \<in> set es \<and> d = extract_domain_from_email x \<and> d \<noteq> [] \<and> is_business_domain d)"
proof (induction es arbitrary: acc)
  case Nil
  then show ?case by simp
next
  case (Cons e es)
  from Cons.IH[OF Cons.prems[simplified]] show ?case
    using business_step_keys[of acc e x d] by auto
qed

lemma foldl_business_domains:
  "d \<in> set (fst (foldl business_step acc es)) \<Longrightarrow>
     d \<in> set (fst acc)
     \<or> (\<exists>e \<in> set es. d = extract_domain_from_email e) \<and> d \<noteq> [] \<and> is_business_domain d"
proof (induction es arbitrary: acc)
  case Nil
  then show ?case by simp
next
  case (Cons e es)
  from Cons.IH[OF Cons.prems[simplified]] show ?case
    using business_step_domains[of d acc e] by auto
qed

lemma email_to_domain_entry:
  "map_of (snd (filter_business_domains es)) x = Some d \<Longrightarrow>
     x \<in> set es \<and> d = extract_domain_from_email x \<and> d \<noteq> [] \<and> is_business_domain d"
  using foldl_business_keys[of "([], [])" es x d] by (auto simp add: filter_business_domains_def)

lemma business_domains_business:
  "d \<in> set (fst (filter_business_domains es)) \<Longrightarrow> d \<noteq> [] \<and> is_business_domain d"
  using foldl_business_domains[of d "([], [])" es] by (auto simp add: filter_business_domains_def)

text \<open>
  Claim C8, as the code has it. For an email with an \<open>@\<close>, the domain is element 1 of
  the split at \<open>@\<close>: the text after the first \<open>@\<close> up to the next \<open>@\<close> or the end,
  lower-cased; it is the whole remainder when the email has one \<open>@\<close> only. An email
  without \<open>@\<close> has the empty domain, which is no business domain, and the email gets no
  entry in \<open>email_to_domain\<close>, whatever the other participant emails are.
\<close>

theorem extract_domain_from_email_between_ats:
  "(\<forall>local rest. CHR ''@'' \<notin> set local \<longrightarrow>
      extract_domain_from_email (local @ CHR ''@'' # rest)
        = lower (takeWhile (\<lambda>x. x \<noteq> CHR ''@'') rest))
   \<and> (\<forall>local rest. CHR ''@'' \<notin> set local \<and> CHR ''@'' \<notin> set rest \<longrightarrow>
      extract_domain_from_email (local @ CHR ''@'' # rest) = lower rest)
   \<and> (\<forall>email emails. CHR ''@'' \<notin> set email \<longrightarrow>
      extract_domain_from_email email = []
      \<and> \<not> is_business_domain (extract_domain_from_email email)
      \<and> map_of (snd (filter_business_domains emails)) email = None)"
proof (intro conjI allI impI)
  fix local rest
  assume "CHR ''@'' \<notin> set local"
  then show "extract_domain_from_email (local @ CHR ''@'' # rest)
        = lower (takeWhile (\<lambda>x. x \<noteq> CHR ''@'') rest)"
    by (rule domain_between)
next
  fix local rest
  assume a: "CHR ''@'' \<notin> set local \<and> CHR ''@'' \<notin> set rest"
  then have tw: "takeWhile (\<lambda>x. x \<noteq> CHR ''@'') rest = rest"
    by (auto simp add: takeWhile_eq_all_conv)
  from a have "CHR ''@'' \<notin> set local" by simp
  from domain_between[OF this, of rest]
  show "extract_domain_from_email (local @ CHR ''@'' # rest) = lower rest"
    unfolding tw .
next
  fix email :: string and emails
  assume a: "CHR ''@'' \<notin> set email"
  then show "extract_domain_from_email email = []"
    by (simp add: extract_domain_from_email_def)
  then show "\<not> is_business_domain (extract_domain_from_email email)"
    by (simp add: is_business_domain_def)
  show "map_of (snd (filter_business_domains emails)) email = None"
  proof (cases "map_of (snd (filter_business_domains emails)) email")
    case None
    then show ?thesis .
  next
    case (Some d)
    from email_to_domain_entry[OF Some] a show ?thesis
      by (auto simp add: extract_domain_from_email_def)
  qed
qed

theorem extract_domain_from_email_between_ats_witness:
  "extract_domain_from_email ''joe@Sales@acme.io'' = ''sales''
   \<and> extract_domain_from_email ''Alice@Acme.IO'' = ''acme.io''
   \<and> extract_domain_from_email ''bob'' = []
   \<and> map_of (snd (filter_business_domains [''bob'', ''alice@acme.io''])) ''bob'' = None"
proof -
  note t = extract_domain_from_email_between_ats
  have l1: "lower ''Sales'' = ''sales''" by code_simp
  have l2: "lower ''Acme.IO'' = ''acme.io''" by code_simp
  have 1: "extract_domain_from_email ''joe@Sales@acme.io'' = lower ''Sales''"
    using t [THEN conjunct1, rule_format, of "''joe''" "''Sales@acme.io''"] by simp
  have 2: "extract_domain_from_email ''Alice@Acme.IO'' = lower ''Acme.IO''"
    using t [THEN conjunct2, THEN conjunct1, rule_format, of "''Alice''" "''Acme.IO''"] by simp
  have 3: "extract_domain_from_email ''bob'' = []
      \<and> map_of (snd (filter_business_domains [''bob'', ''alice@acme.io''])) ''bob'' = None"
    using t [THEN conjunct2, THEN conjunct2, rule_format, of "''bob''" "[''bob'', ''alice@acme.io'']"]
    by simp
  show ?thesis using 1 2 3 l1 l2 by simp
qed

text \<open>
  With a second \<open>@\<close> the domain stops there: it is not the entire text after the first
  \<open>@\<close>.
\<close>

theorem extract_domain_from_email_not_whole_rest:
  "extract_domain_from_email ''joe@sales@acme.io'' = ''sales''
   \<and> extract_domain_from_email ''joe@sales@acme.io'' \<noteq> ''sales@acme.io''"
  by code_simp

section \<open>Entity resolution: companies and customers\<close>

lemma update_stage_frame [simp]:
  "company_rows (update_stage ts u x s) = company_rows s"
  "customer_rows (update_stage ts u x s) = customer_rows s"
  "message_rows (update_stage ts u x s) = message_rows s"
  "next_step_rows (update_stage ts u x s) = next_step_rows s"
  "participant_rows (update_stage ts u x s) = participant_rows s"
  "thread_rows (update_stage ts u x s) = thread_rows s"
  "next_key (update_stage ts u x s) = next_key s"
  by (simp_all add: update_stage_def)

lemma upsert_company_rows:
  "upsert_company u d n s = (row, s') \<Longrightarrow> c \<in> set (company_rows s') \<Longrightarrow>
     c \<in> set (company_rows s) \<or> domain_name c = d"
  by (auto simp: upsert_company_def Let_def split: option.splits if_splits)

lemma upsert_company_customers:
  "upsert_company u d n s = (row, s') \<Longrightarrow> customer_rows s' = customer_rows s"
  by (auto simp: upsert_company_def Let_def split: option.splits)

lemma company_step_rows:
  "c \<in> set (company_rows (st (company_step u p d))) \<Longrightarrow>
     c \<in> set (company_rows (st p)) \<or> domain_name c = d"
  by (auto simp: company_step_def split: option.splits prod.splits dest: upsert_company_rows)

lemma upsert_companies_rows:
  "c \<in> set (company_rows (st (upsert_companies u p ds))) \<Longrightarrow>
     c \<in> set (company_rows (st p)) \<or> domain_name c \<in> set ds"
  unfolding upsert_companies_def
proof (induction ds arbitrary: p)
  case Nil
  then show ?case by simp
next
  case (Cons d ds)
  from Cons.IH[OF Cons.prems[simplified]] show ?case
    using company_step_rows[of c u p d] by auto
qed

lemma insert_customer_companies:
  "insert_customer u e n co dm s = Inr (row, s') \<Longrightarrow> company_rows s' = company_rows s"
  by (auto simp: insert_customer_def Let_def split: if_splits)

lemma update_customer_company_frame [simp]:
  "company_rows (update_customer_company i u co d s) = company_rows s"
  "next_step_rows (update_customer_company i u co d s) = next_step_rows s"
  by (simp_all add: update_customer_company_def)

lemma customer_step_companies:
  "company_rows (st (customer_step u e2d p e)) = company_rows (st p)"
  by (auto simp: customer_step_def Let_def
      split: option.splits sum.splits prod.splits db_error.splits
      dest: insert_customer_companies)

lemma upsert_customers_companies:
  "company_rows (st (upsert_customers u e2d p es)) = company_rows (st p)"
  unfolding upsert_customers_def
  by (induction es arbitrary: p) (simp_all add: customer_step_companies)

lemma link_step_frame [simp]:
  "company_rows (st (link_step u t p co)) = company_rows (st p)"
  "customer_rows (st (link_step u t p co)) = customer_rows (st p)"
  by (simp_all add: link_step_def)

lemma foldl_link_step_frame [simp]:
  "company_rows (st (foldl (link_step u t) p cs)) = company_rows (st p)"
  "customer_rows (st (foldl (link_step u t) p cs)) = customer_rows (st p)"
  by (induction cs arbitrary: p) simp_all

lemma deny_list_all: "list_all (\<lambda>d. \<not> is_business_domain d) COMMON_EMAIL_PROVIDERS"
  by code_simp

lemma deny_listed_not_business:
  "d \<in> set COMMON_EMAIL_PROVIDERS \<Longrightarrow> \<not> is_business_domain d"
  using deny_list_all unfolding list_all_iff by blast

lemma process_company_rows:
  assumes "c \<in> set (company_rows (snd (process_thread_entities jl u t s0)))"
  shows "c \<in> set (company_rows s0) \<or> is_business_domain (domain_name c)"
proof -
  let ?s1 = "update_stage [t] u ''resolving_entities'' s0"
  let ?msgs = "filter (\<lambda>m. m_thread_id m = t \<and> m_user_id m = u) (message_rows ?s1)"
  show ?thesis
  proof (cases "?msgs = []")
    case True
    with assms show ?thesis by (simp add: process_thread_entities_def Let_def)
  next
    case False
    let ?es = "extract_participant_emails jl ?msgs"
    obtain bd e2d where f: "filter_business_domains ?es = (bd, e2d)" by force
    let ?p0 = "\<lparr>st = ?s1, domain_to_company_id = [], email_to_customer_id = [],
                res = \<lparr>pr_success = False, messages_processed = length ?msgs,
                  emails_extracted = length ?es, business_domains_found = length bd,
                  companies_created = 0, companies_found = 0, pr_customers_created = 0,
                  pr_customers_found = 0, thread_company_links_created = 0\<rparr>\<rparr>"
    from assms False f have "c \<in> set (company_rows (st (upsert_companies u ?p0 bd)))"
      by (simp add: process_thread_entities_def Let_def upsert_customers_companies)
    from upsert_companies_rows[OF this]
    have "c \<in> set (company_rows s0) \<or> domain_name c \<in> set bd" by simp
    moreover have "\<And>d. d \<in> set bd \<Longrightarrow> is_business_domain d"
      using business_domains_business[of _ ?es] f by simp
    ultimately show ?thesis by auto
  qed
qed

lemma find_customer_None_insert:
  "find_customer s u e = None \<Longrightarrow>
     insert_customer u e n co dm s =
       Inr (\<lparr>customer_id = next_key s, cu_user_id = u, cu_email = e, full_name = n,
              cu_company_id = co, domain_match = dm, cu_status = ''prospect''\<rparr>,
            s\<lparr>customer_rows := customer_rows s @
                 [\<lparr>customer_id = next_key s, cu_user_id = u, cu_email = e, full_name = n,
                   cu_company_id = co, domain_match = dm, cu_status = ''prospect''\<rparr>],
              next_key := Suc (next_key s)\<rparr>)"
  by (simp add: insert_customer_def Let_def)

lemma find_company_None_insert:
  "find_company s u d = None \<Longrightarrow>
     insert_company u d n s =
       Inr (\<lparr>company_id = next_key s, c_user_id = u, domain_name = d, company_name = n,
              c_status = ''active''\<rparr>,
            s\<lparr>company_rows := company_rows s @
                 [\<lparr>company_id = next_key s, c_user_id = u, domain_name = d, company_name = n,
                   c_status = ''active''\<rparr>],
              next_key := Suc (next_key s)\<rparr>)"
  by (simp add: insert_company_def Let_def)

lemma find_customer_frame:
  "customer_rows s' = customer_rows s \<Longrightarrow> find_customer s' u e = find_customer s u e"
  by (simp add: find_customer_def)

lemma find_company_frame:
  "company_rows s' = company_rows s \<Longrightarrow> find_company s' u d = find_company s u d"
  by (simp add: find_company_def)

lemma customer_step_new:
  assumes "find_customer (st p) u e = None"
  shows "customer_rows (st (customer_step u e2d p e)) =
           customer_rows (st p) @
             [\<lparr>customer_id = next_key (st p), cu_user_id = u, cu_email = e,
               full_name = (if CHR ''@'' \<in> set e then hd (split_on CHR ''@'' e) else e),
               cu_company_id = (case map_of e2d e of
                                  None \<Rightarrow> None
                                | Some d \<Rightarrow> if d = [] then None
                                            else map_of (domain_to_company_id p) d),
               domain_match = (case map_of e2d e of
                                 None \<Rightarrow> None
                               | Some d \<Rightarrow> if d = [] then None else Some d),
               cu_status = ''prospect''\<rparr>]"
  using assms
  by (simp add: customer_step_def Let_def find_customer_None_insert split: option.splits)

lemma resolve_customer_step_no_domain:
  assumes "find_customer (rs_store r) u e = None" "extract_domain_from_email e = []"
  shows "rs_store (resolve_customer_step u r e) = rs_store r
         \<and> rr_errors (rs_result (resolve_customer_step u r e))
             = rr_errors (rs_result r) @ [NoCompanyForCustomer [] e]
         \<and> rs_email_to_customer_id (resolve_customer_step u r e) = rs_email_to_customer_id r"
  using assms by (simp add: resolve_customer_step_def Let_def)

lemma resolve_customer_step_domain:
  assumes "find_customer (rs_store r) u e = None" "extract_domain_from_email e \<noteq> []"
  shows "\<exists>coid.
           customer_rows (rs_store (resolve_customer_step u r e)) =
             customer_rows (rs_store r) @
               [\<lparr>customer_id = (if find_company (rs_store r) u (extract_domain_from_email e) = None
                                 then Suc (next_key (rs_store r)) else next_key (rs_store r)),
                 cu_user_id = u, cu_email = e,
                 full_name = extract_local_part_from_email e,
                 cu_company_id = Some coid,
                 domain_match = Some (extract_domain_from_email e),
                 cu_status = ''prospect''\<rparr>]
           \<and> (\<exists>co. find_company (rs_store (resolve_customer_step u r e)) u
                      (extract_domain_from_email e) = Some co \<and> company_id co = coid)"
proof (cases "find_company (rs_store r) u (extract_domain_from_email e)")
  case None
  let ?d = "extract_domain_from_email e"
  let ?row = "\<lparr>company_id = next_key (rs_store r), c_user_id = u, domain_name = ?d,
                company_name = company_name_of ?d, c_status = ''active''\<rparr>"
  let ?s1 = "(rs_store r)\<lparr>company_rows := company_rows (rs_store r) @ [?row],
               next_key := Suc (next_key (rs_store r))\<rparr>"
  have fc: "find_customer ?s1 u e = None"
    using assms(1) by (simp add: find_customer_def)
  have fco: "find_company ?s1 u ?d = Some ?row"
    using None by (simp add: find_company_def find_None_iff find_Some_iff nth_append)
       (rule exI[of _ "length (company_rows (rs_store r))"], auto simp: nth_append)
  show ?thesis
    using assms None fc fco
    by (simp add: resolve_customer_step_def Let_def find_company_None_insert
        find_customer_None_insert find_company_def)
next
  case (Some co)
  then show ?thesis
    using assms
    by (simp add: resolve_customer_step_def Let_def find_customer_None_insert find_company_def)
qed

lemma find_customer_keys: "find_customer s u e \<noteq> None \<longleftrightarrow> (e, u) \<in> set (customer_keys s)"
  by (auto simp: find_customer_def customer_keys_def find_None_iff)

lemma update_customer_company_keys:
  "customer_keys (update_customer_company i u co d s) = customer_keys s"
proof -
  have "\<And>c. (\<lambda>c. (cu_email c, cu_user_id c))
          (if customer_id c = i \<and> cu_user_id c = u
           then c\<lparr>cu_company_id := Some co, domain_match := Some d\<rparr> else c)
        = (cu_email c, cu_user_id c)"
    by simp
  then show ?thesis
    by (simp add: customer_keys_def update_customer_company_def comp_def)
qed

lemma customer_step_keys:
  "set (customer_keys (st p)) \<subseteq> set (customer_keys (st (customer_step u e2d p e)))"
proof (cases "find_customer (st p) u e")
  case None
  from customer_step_new[OF None, of e2d] show ?thesis
    by (auto simp: customer_keys_def)
next
  case (Some c)
  then show ?thesis
    by (simp add: customer_step_def Let_def update_customer_company_keys split: option.splits)
qed

lemma customer_step_self:
  "(e, u) \<in> set (customer_keys (st (customer_step u e2d p e)))"
proof (cases "find_customer (st p) u e")
  case None
  from customer_step_new[OF None, of e2d] show ?thesis
    by (auto simp: customer_keys_def)
next
  case (Some c)
  then have "(e, u) \<in> set (customer_keys (st p))"
    using find_customer_keys[of "st p" u e] by simp
  then show ?thesis using customer_step_keys by blast
qed

lemma upsert_customers_keys:
  "set (customer_keys (st p)) \<subseteq> set (customer_keys (st (upsert_customers u e2d p es)))"
  unfolding upsert_customers_def
proof (induction es arbitrary: p)
  case Nil
  then show ?case by simp
next
  case (Cons e es)
  show ?case using Cons.IH[of "customer_step u e2d p e"] customer_step_keys[of p u e2d e]
    by auto
qed

lemma upsert_customers_all:
  "e \<in> set es \<Longrightarrow> (e, u) \<in> set (customer_keys (st (upsert_customers u e2d p es)))"
proof (induction es arbitrary: p)
  case Nil
  then show ?case by simp
next
  case (Cons x xs)
  show ?case
  proof (cases "e = x")
    case True
    have "(e, u) \<in> set (customer_keys (st (customer_step u e2d p x)))"
      using True customer_step_self by simp
    then show ?thesis
      using upsert_customers_keys[of "customer_step u e2d p x" u e2d xs]
      by (auto simp: upsert_customers_def)
  next
    case False
    with Cons.prems have "e \<in> set xs" by simp
    from Cons.IH[OF this, of "customer_step u e2d p x"] show ?thesis
      by (simp add: upsert_customers_def)
  qed
qed

lemma upsert_customers_found:
  "e \<in> set es \<Longrightarrow> find_customer (st (upsert_customers u e2d p es)) u e \<noteq> None"
  using upsert_customers_all find_customer_keys by blast

lemma improves_refl: "improves e2d d2c es c c"
  by (simp add: improves_def)

lemma improves_trans:
  "improves e2d d2c es1 a b \<Longrightarrow> improves e2d d2c es2 b c \<Longrightarrow> improves e2d d2c (es1 @ es2) a c"
  unfolding improves_def by (elim disjE bexE exE conjE) (simp; blast)+

lemma update_customer_company_improves:
  assumes "map_of e2d e = Some d" "d \<noteq> []" "map_of d2c d = Some coid"
    and "i < length (customer_rows s)"
  shows "improves e2d d2c [e] (customer_rows s ! i)
           (customer_rows (update_customer_company k u coid d s) ! i)"
  using assms by (auto simp: improves_def update_customer_company_def)

lemma update_customer_company_length:
  "length (customer_rows (update_customer_company k u coid d s)) = length (customer_rows s)"
  by (simp add: update_customer_company_def)

lemma customer_step_d2c [simp]:
  "domain_to_company_id (customer_step u e2d p e) = domain_to_company_id p"
  by (simp add: customer_step_def Let_def find_customer_None_insert
      split: option.splits sum.splits prod.splits db_error.splits)

lemma customer_step_existing:
  assumes "find_customer (st p) u e = Some c"
  shows "st (customer_step u e2d p e) =
           (case map_of e2d e of
              None \<Rightarrow> st p
            | Some d \<Rightarrow>
                if d = [] then st p
                else (case map_of (domain_to_company_id p) d of
                        None \<Rightarrow> st p
                      | Some coid \<Rightarrow> update_customer_company (customer_id c) u coid d (st p)))"
  using assms by (simp add: customer_step_def Let_def split: option.splits)

lemma customer_step_improves:
  assumes "i < length (customer_rows (st p))"
  shows "improves e2d (domain_to_company_id p) [e] (customer_rows (st p) ! i)
           (customer_rows (st (customer_step u e2d p e)) ! i)"
proof (cases "find_customer (st p) u e")
  case None
  from customer_step_new[OF None, of e2d] assms show ?thesis
    by (simp add: nth_append improves_refl)
next
  case (Some c)
  show ?thesis
    unfolding customer_step_existing[OF Some]
    using assms
    by (auto split: option.splits simp: improves_refl update_customer_company_improves)
qed

lemma customer_step_length:
  "length (customer_rows (st p)) \<le> length (customer_rows (st (customer_step u e2d p e)))"
proof (cases "find_customer (st p) u e")
  case None
  from customer_step_new[OF None, of e2d] show ?thesis by simp
next
  case (Some c)
  show ?thesis
    unfolding customer_step_existing[OF Some]
    by (auto split: option.splits simp: update_customer_company_length)
qed

lemma upsert_customers_d2c [simp]:
  "domain_to_company_id (upsert_customers u e2d p es) = domain_to_company_id p"
  unfolding upsert_customers_def by (induction es arbitrary: p) simp_all

lemma upsert_customers_length:
  "length (customer_rows (st p)) \<le> length (customer_rows (st (upsert_customers u e2d p es)))"
  unfolding upsert_customers_def
proof (induction es arbitrary: p)
  case Nil
  then show ?case by simp
next
  case (Cons e es)
  show ?case using Cons.IH[of "customer_step u e2d p e"] customer_step_length[of p u e2d e]
    by simp
qed

lemma upsert_customers_improves:
  assumes "i < length (customer_rows (st p))"
  shows "improves e2d (domain_to_company_id p) es (customer_rows (st p) ! i)
           (customer_rows (st (upsert_customers u e2d p es)) ! i)"
  using assms unfolding upsert_customers_def
proof (induction es arbitrary: p)
  case Nil
  then show ?case by (simp add: improves_refl)
next
  case (Cons e es)
  let ?p1 = "customer_step u e2d p e"
  have i1: "i < length (customer_rows (st ?p1))"
    using Cons.prems customer_step_length[of p u e2d e] by simp
  have a: "improves e2d (domain_to_company_id p) [e] (customer_rows (st p) ! i)
             (customer_rows (st ?p1) ! i)"
    using customer_step_improves[OF Cons.prems] .
  have b: "improves e2d (domain_to_company_id p) es (customer_rows (st ?p1) ! i)
             (customer_rows (st (foldl (customer_step u e2d) ?p1 es)) ! i)"
    using Cons.IH[OF i1] by simp
  from improves_trans[OF a b] show ?case by simp
qed

lemma company_step_customers [simp]:
  "customer_rows (st (company_step u p d)) = customer_rows (st p)"
  by (auto simp: company_step_def split: option.splits prod.splits dest: upsert_company_customers)

lemma upsert_companies_customers [simp]:
  "customer_rows (st (upsert_companies u p ds)) = customer_rows (st p)"
  unfolding upsert_companies_def by (induction ds arbitrary: p) simp_all

lemma process_customer_rows:
  "\<exists>e2d d2c es.
     length (customer_rows s0) \<le> length (customer_rows (snd (process_thread_entities jl u t s0)))
     \<and> (\<forall>i < length (customer_rows s0).
          improves e2d d2c es (customer_rows s0 ! i)
            (customer_rows (snd (process_thread_entities jl u t s0)) ! i))"
proof -
  let ?s1 = "update_stage [t] u ''resolving_entities'' s0"
  let ?msgs = "filter (\<lambda>m. m_thread_id m = t \<and> m_user_id m = u) (message_rows ?s1)"
  show ?thesis
  proof (cases "?msgs = []")
    case True
    then show ?thesis by (simp add: process_thread_entities_def Let_def improves_refl)
  next
    case False
    let ?es = "extract_participant_emails jl ?msgs"
    obtain bd e2d where f: "filter_business_domains ?es = (bd, e2d)" by force
    let ?p0 = "\<lparr>st = ?s1, domain_to_company_id = [], email_to_customer_id = [],
                res = \<lparr>pr_success = False, messages_processed = length ?msgs,
                  emails_extracted = length ?es, business_domains_found = length bd,
                  companies_created = 0, companies_found = 0, pr_customers_created = 0,
                  pr_customers_found = 0, thread_company_links_created = 0\<rparr>\<rparr>"
    let ?p1 = "upsert_companies u ?p0 bd"
    have rows: "customer_rows (snd (process_thread_entities jl u t s0))
                  = customer_rows (st (upsert_customers u e2d ?p1 ?es))"
      using False f by (simp add: process_thread_entities_def Let_def)
    have c0: "customer_rows (st ?p1) = customer_rows s0" by simp
    show ?thesis
      unfolding rows
      using upsert_customers_length[of ?p1 u e2d ?es]
        upsert_customers_improves[of _ ?p1 e2d ?es u]
      unfolding c0 by blast
  qed
qed

text \<open>
  Claim C2, as the code has it. No domain of the deny-list is a business domain, and
  none is among the \<open>business_domains\<close> the company loop of
  \<open>process_thread_entities\<close> runs over; every company row in the store after
  \<open>process_thread_entities\<close> was there before or has a business domain. The batch
  resolver \<open>resolve_thread_entities\<close> has no deny-list: for an email with no customer
  row and a non-empty domain, its step finds or creates the company of that domain,
  whatever the domain is.
\<close>

theorem companies_only_for_business_domains:
  "(\<forall>d \<in> set COMMON_EMAIL_PROVIDERS. \<not> is_business_domain d)
   \<and> (\<forall>emails. \<forall>d \<in> set (fst (filter_business_domains emails)).
         d \<notin> set COMMON_EMAIL_PROVIDERS)
   \<and> (\<forall>c \<in> set (company_rows (snd (process_thread_entities json_loads user_id thread_id s0))).
         c \<in> set (company_rows s0) \<or> is_business_domain (domain_name c))
   \<and> (\<forall>r e. find_customer (rs_store r) user_id e = None \<and> extract_domain_from_email e \<noteq> [] \<longrightarrow>
         find_company (rs_store (resolve_customer_step user_id r e)) user_id
           (extract_domain_from_email e) \<noteq> None)"
proof (intro conjI ballI allI impI)
  fix d assume "d \<in> set COMMON_EMAIL_PROVIDERS"
  then show "\<not> is_business_domain d" by (rule deny_listed_not_business)
next
  fix emails d assume "d \<in> set (fst (filter_business_domains emails))"
  then have "is_business_domain d" using business_domains_business by blast
  then show "d \<notin> set COMMON_EMAIL_PROVIDERS" using deny_listed_not_business by blast
next
  fix c assume "c \<in> set (company_rows (snd (process_thread_entities json_loads user_id thread_id s0)))"
  then show "c \<in> set (company_rows s0) \<or> is_business_domain (domain_name c)"
    by (rule process_company_rows)
next
  fix r :: rstate and e
  assume a: "find_customer (rs_store r) user_id e = None \<and> extract_domain_from_email e \<noteq> []"
  then obtain coid co where
    "find_company (rs_store (resolve_customer_step user_id r e)) user_id
       (extract_domain_from_email e) = Some co"
    using resolve_customer_step_domain[of r user_id e] by blast
  then show "find_company (rs_store (resolve_customer_step user_id r e)) user_id
           (extract_domain_from_email e) \<noteq> None" by simp
qed

theorem companies_only_for_business_domains_witness:
  "list_all (\<lambda>c. is_business_domain (domain_name c))
     (company_rows (snd (process_thread_entities (\<lambda>t. DecodeError) ''u1'' ''t1'' webmail_thread)))
   \<and> map domain_name
       (company_rows (snd (process_thread_entities (\<lambda>t. DecodeError) ''u1'' ''t1'' webmail_thread)))
     = [''acme.io'']
   \<and> find_company (rs_store (resolve_customer_step ''u1'' (initial_rstate empty_store)
        ''bob@gmail.com'')) ''u1'' ''gmail.com'' \<noteq> None"
proof -
  note t = companies_only_for_business_domains
    [of "\<lambda>t. DecodeError" "''u1''" "''t1''" webmail_thread]
  have e: "company_rows webmail_thread = []" by code_simp
  have 1: "list_all (\<lambda>c. is_business_domain (domain_name c))
     (company_rows (snd (process_thread_entities (\<lambda>t. DecodeError) ''u1'' ''t1'' webmail_thread)))"
    using t [THEN conjunct2, THEN conjunct2, THEN conjunct1] unfolding e list_all_iff by simp
  have 2: "map domain_name
       (company_rows (snd (process_thread_entities (\<lambda>t. DecodeError) ''u1'' ''t1'' webmail_thread)))
     = [''acme.io'']" by code_simp
  have f: "find_customer (rs_store (initial_rstate empty_store)) ''u1'' ''bob@gmail.com'' = None"
    by code_simp
  have d: "extract_domain_from_email ''bob@gmail.com'' = ''gmail.com''" by code_simp
  have 3: "find_company (rs_store (resolve_customer_step ''u1'' (initial_rstate empty_store)
        ''bob@gmail.com'')) ''u1'' ''gmail.com'' \<noteq> None"
    using t [THEN conjunct2, THEN conjunct2, THEN conjunct2, rule_format,
        of "initial_rstate empty_store" "''bob@gmail.com''"] f d by simp
  show ?thesis using 1 2 3 by simp
qed

text \<open>
  \<open>resolve_thread_entities\<close> on a thread with a sender at \<open>gmail.com\<close> and no
  company rows creates a company for \<open>gmail.com\<close>, a domain of the deny-list.
\<close>

theorem resolver_creates_webmail_company:
  "''gmail.com'' \<in> set COMMON_EMAIL_PROVIDERS
   \<and> map domain_name (company_rows (go_store
         (resolve_thread_entities (\<lambda>t. DecodeError) (\<lambda>t. True) ''u1'' [''t1''] webmail_thread)))
       = [''gmail.com'', ''acme.io'']"
  by code_simp

text \<open>
  Claim C3, as the code has it. In \<open>process_thread_entities\<close>, an email without a
  customer row gets one, with the company id looked up for its business domain and no
  company id when the domain is no business domain or has no company; after the loop
  every participant email has a customer row. In \<open>resolve_thread_entities\<close>, an
  email without a customer row gets one only when its domain is not empty, always with
  the id of the company found or created for the domain; for an empty domain the store
  is left as it is and an error is recorded.
\<close>

theorem customer_created_for_new_email:
  "(\<forall>p e. find_customer (st p) user_id e = None \<longrightarrow>
      customer_rows (st (customer_step user_id email_to_domain p e)) =
        customer_rows (st p) @
          [\<lparr>customer_id = next_key (st p), cu_user_id = user_id, cu_email = e,
            full_name = (if CHR ''@'' \<in> set e then hd (split_on CHR ''@'' e) else e),
            cu_company_id = (case map_of email_to_domain e of
                               None \<Rightarrow> None
                             | Some d \<Rightarrow> if d = [] then None
                                         else map_of (domain_to_company_id p) d),
            domain_match = (case map_of email_to_domain e of
                              None \<Rightarrow> None
                            | Some d \<Rightarrow> if d = [] then None else Some d),
            cu_status = ''prospect''\<rparr>])
   \<and> (\<forall>p es. \<forall>e \<in> set es.
        find_customer (st (upsert_customers user_id email_to_domain p es)) user_id e \<noteq> None)
   \<and> (\<forall>r e. find_customer (rs_store r) user_id e = None \<and> extract_domain_from_email e = [] \<longrightarrow>
        rs_store (resolve_customer_step user_id r e) = rs_store r
        \<and> rr_errors (rs_result (resolve_customer_step user_id r e))
            = rr_errors (rs_result r) @ [NoCompanyForCustomer [] e])
   \<and> (\<forall>r e. find_customer (rs_store r) user_id e = None \<and> extract_domain_from_email e \<noteq> [] \<longrightarrow>
        (\<exists>coid co.
           customer_rows (rs_store (resolve_customer_step user_id r e)) =
             customer_rows (rs_store r) @
               [\<lparr>customer_id =
                   (if find_company (rs_store r) user_id (extract_domain_from_email e) = None
                    then Suc (next_key (rs_store r)) else next_key (rs_store r)),
                 cu_user_id = user_id, cu_email = e,
                 full_name = extract_local_part_from_email e,
                 cu_company_id = Some coid,
                 domain_match = Some (extract_domain_from_email e),
                 cu_status = ''prospect''\<rparr>]
           \<and> find_company (rs_store (resolve_customer_step user_id r e)) user_id
                 (extract_domain_from_email e) = Some co
           \<and> company_id co = coid))"
proof (intro conjI allI impI ballI)
  fix p :: pstate and e assume "find_customer (st p) user_id e = None"
  from customer_step_new[OF this, of email_to_domain]
  show "customer_rows (st (customer_step user_id email_to_domain p e)) =
        customer_rows (st p) @
          [\<lparr>customer_id = next_key (st p), cu_user_id = user_id, cu_email = e,
            full_name = (if CHR ''@'' \<in> set e then hd (split_on CHR ''@'' e) else e),
            cu_company_id = (case map_of email_to_domain e of
                               None \<Rightarrow> None
                             | Some d \<Rightarrow> if d = [] then None
                                         else map_of (domain_to_company_id p) d),
            domain_match = (case map_of email_to_domain e of
                              None \<Rightarrow> None
                            | Some d \<Rightarrow> if d = [] then None else Some d),
            cu_status = ''prospect''\<rparr>]" .
next
  fix p :: pstate and es :: "string list" and e assume "e \<in> set es"
  then show "find_customer (st (upsert_customers user_id email_to_domain p es)) user_id e \<noteq> None"
    by (rule upsert_customers_found)
next
  fix r :: rstate and e
  assume a: "find_customer (rs_store r) user_id e = None \<and> extract_domain_from_email e = []"
  then show "rs_store (resolve_customer_step user_id r e) = rs_store r"
    using resolve_customer_step_no_domain[of r user_id e] by simp
  from a show "rr_errors (rs_result (resolve_customer_step user_id r e))
            = rr_errors (rs_result r) @ [NoCompanyForCustomer [] e]"
    using resolve_customer_step_no_domain[of r user_id e] by simp
next
  fix r :: rstate and e
  assume a: "find_customer (rs_store r) user_id e = None \<and> extract_domain_from_email e \<noteq> []"
  then show "\<exists>coid co.
           customer_rows (rs_store (resolve_customer_step user_id r e)) =
             customer_rows (rs_store r) @
               [\<lparr>customer_id =
                   (if find_company (rs_store r) user_id (extract_domain_from_email e) = None
                    then Suc (next_key (rs_store r)) else next_key (rs_store r)),
                 cu_user_id = user_id, cu_email = e,
                 full_name = extract_local_part_from_email e,
                 cu_company_id = Some coid,
                 domain_match = Some (extract_domain_from_email e),
                 cu_status = ''prospect''\<rparr>]
           \<and> find_company (rs_store (resolve_customer_step user_id r e)) user_id
                 (extract_domain_from_email e) = Some co
           \<and> company_id co = coid"
    using resolve_customer_step_domain[of r user_id e] by blast
qed

theorem customer_created_for_new_email_witness:
  "map (\<lambda>c. (cu_email c, cu_company_id c))
     (customer_rows (st (customer_step ''u1'' [] (initial_pstate empty_store) ''bob@gmail.com'')))
     = [(''bob@gmail.com'', None)]
   \<and> find_customer (st (upsert_customers ''u1'' [] (initial_pstate empty_store)
        [''bob@gmail.com'', ''carol''])) ''u1'' ''carol'' \<noteq> None
   \<and> customer_rows (rs_store (resolve_customer_step ''u1'' (initial_rstate empty_store) ''carol''))
       = []
   \<and> map (\<lambda>c. (cu_email c, cu_company_id c))
       (customer_rows (rs_store (resolve_customer_step ''u1'' (initial_rstate empty_store)
          ''bob@gmail.com'')))
     = [(''bob@gmail.com'', Some 1)]"
proof -
  note t = customer_created_for_new_email [of "''u1''" "[]"]
  have f: "find_customer (st (initial_pstate empty_store)) ''u1'' ''bob@gmail.com'' = None"
    by code_simp
  have 1: "map (\<lambda>c. (cu_email c, cu_company_id c))
     (customer_rows (st (customer_step ''u1'' [] (initial_pstate empty_store) ''bob@gmail.com'')))
     = [(''bob@gmail.com'', None)]"
    using t [THEN conjunct1, rule_format, OF f]
    by (simp add: initial_pstate_def empty_store_def)
  have 2: "find_customer (st (upsert_customers ''u1'' [] (initial_pstate empty_store)
        [''bob@gmail.com'', ''carol''])) ''u1'' ''carol'' \<noteq> None"
    using t [THEN conjunct2, THEN conjunct1, rule_format,
        of "''carol''" "[''bob@gmail.com'', ''carol'']" "initial_pstate empty_store"]
    by simp
  have g: "find_customer (rs_store (initial_rstate empty_store)) ''u1'' ''carol'' = None
      \<and> extract_domain_from_email ''carol'' = []" by code_simp
  have 3: "customer_rows (rs_store (resolve_customer_step ''u1'' (initial_rstate empty_store)
       ''carol'')) = []"
    using t [THEN conjunct2, THEN conjunct2, THEN conjunct1, rule_format, OF g]
    by (simp add: initial_rstate_def empty_store_def)
  have 4: "map (\<lambda>c. (cu_email c, cu_company_id c))
       (customer_rows (rs_store (resolve_customer_step ''u1'' (initial_rstate empty_store)
          ''bob@gmail.com'')))
     = [(''bob@gmail.com'', Some 1)]" by code_simp
  show ?thesis using 1 2 3 4 by simp
qed

text \<open>
  \<open>resolve_thread_entities\<close> on a thread whose recipient list holds
  \<open>undisclosed-recipients:;\<close>: the address is an extracted participant email without a
  customer row, and no customer is created for it.
\<close>

theorem resolver_creates_no_customer_without_domain:
  "find_customer undisclosed_thread ''u1'' ''undisclosed-recipients:;'' = None
   \<and> map snd (extract_thread_emails (\<lambda>t. DecodeError) None (message_rows undisclosed_thread))
       = [[''alice@acme.io'', ''undisclosed-recipients:;'']]
   \<and> map cu_email (customer_rows (go_store
         (resolve_thread_entities (\<lambda>t. DecodeError) (\<lambda>t. True) ''u1'' [''t1'']
            undisclosed_thread)))
       = [''alice@acme.io'']
   \<and> rr_errors (go_result
         (resolve_thread_entities (\<lambda>t. DecodeError) (\<lambda>t. True) ''u1'' [''t1'']
            undisclosed_thread))
       = [NoCompanyForCustomer [] ''undisclosed-recipients:;'']"
  by code_simp

lemma improves_fields:
  assumes "improves e2d d2c es c c'"
  shows "customer_id c' = customer_id c \<and> cu_user_id c' = cu_user_id c
         \<and> cu_email c' = cu_email c \<and> full_name c' = full_name c
         \<and> cu_status c' = cu_status c
         \<and> (cu_company_id c' = cu_company_id c \<and> domain_match c' = domain_match c
             \<or> (\<exists>coid d. cu_company_id c' = Some coid \<and> domain_match c' = Some d))
         \<and> (cu_company_id c = None \<or> cu_company_id c' \<noteq> None)"
  using assms unfolding improves_def by auto

text \<open>
  Claim C9. \<open>process_thread_entities\<close> keeps every customer row of the store in its
  place with its id, tenant, email, name and status, and a row that had a company id
  still has one. The step for an email whose customer row exists writes only through
  \<open>update_customer_company\<close>, and only when the email has a business domain with a
  resolved company id; over the whole customer loop, a row is left as it was or has its
  company id and domain match set to such a resolved company and its domain.
\<close>

theorem resolution_keeps_company_association:
  "length (customer_rows s0)
     \<le> length (customer_rows (snd (process_thread_entities json_loads user_id thread_id s0)))
   \<and> (\<forall>i < length (customer_rows s0).
        customer_id (customer_rows (snd (process_thread_entities json_loads user_id thread_id s0)) ! i)
          = customer_id (customer_rows s0 ! i)
        \<and> cu_user_id (customer_rows (snd (process_thread_entities json_loads user_id thread_id s0)) ! i)
          = cu_user_id (customer_rows s0 ! i)
        \<and> cu_email (customer_rows (snd (process_thread_entities json_loads user_id thread_id s0)) ! i)
          = cu_email (customer_rows s0 ! i)
        \<and> full_name (customer_rows (snd (process_thread_entities json_loads user_id thread_id s0)) ! i)
          = full_name (customer_rows s0 ! i)
        \<and> cu_status (customer_rows (snd (process_thread_entities json_loads user_id thread_id s0)) ! i)
          = cu_status (customer_rows s0 ! i)
        \<and> (cu_company_id (customer_rows s0 ! i) = None
            \<or> cu_company_id
                 (customer_rows (snd (process_thread_entities json_loads user_id thread_id s0)) ! i)
               \<noteq> None))
   \<and> (\<forall>p e c. find_customer (st p) user_id e = Some c \<longrightarrow>
        st (customer_step user_id email_to_domain p e) =
          (case map_of email_to_domain e of
             None \<Rightarrow> st p
           | Some d \<Rightarrow>
               if d = [] then st p
               else (case map_of (domain_to_company_id p) d of
                       None \<Rightarrow> st p
                     | Some coid \<Rightarrow>
                         update_customer_company (customer_id c) user_id coid d (st p))))
   \<and> (\<forall>p es. \<forall>i < length (customer_rows (st p)).
        customer_rows (st (upsert_customers user_id email_to_domain p es)) ! i
          = customer_rows (st p) ! i
        \<or> (\<exists>e \<in> set es. \<exists>d coid.
              map_of email_to_domain e = Some d \<and> map_of (domain_to_company_id p) d = Some coid
              \<and> customer_rows (st (upsert_customers user_id email_to_domain p es)) ! i
                  = (customer_rows (st p) ! i)\<lparr>cu_company_id := Some coid,
                                               domain_match := Some d\<rparr>))"
proof (intro conjI allI impI)
  obtain e2d d2c es where
    len: "length (customer_rows s0)
            \<le> length (customer_rows (snd (process_thread_entities json_loads user_id thread_id s0)))"
    and imp: "\<And>i. i < length (customer_rows s0) \<Longrightarrow>
          improves e2d d2c es (customer_rows s0 ! i)
            (customer_rows (snd (process_thread_entities json_loads user_id thread_id s0)) ! i)"
    using process_customer_rows[of s0 json_loads user_id thread_id] by blast
  show "length (customer_rows s0)
     \<le> length (customer_rows (snd (process_thread_entities json_loads user_id thread_id s0)))"
    by (rule len)
  fix i assume i: "i < length (customer_rows s0)"
  note f = improves_fields[OF imp[OF i]]
  show "customer_id (customer_rows (snd (process_thread_entities json_loads user_id thread_id s0)) ! i)
          = customer_id (customer_rows s0 ! i)" using f by simp
  show "cu_user_id (customer_rows (snd (process_thread_entities json_loads user_id thread_id s0)) ! i)
          = cu_user_id (customer_rows s0 ! i)" using f by simp
  show "cu_email (customer_rows (snd (process_thread_entities json_loads user_id thread_id s0)) ! i)
          = cu_email (customer_rows s0 ! i)" using f by simp
  show "full_name (customer_rows (snd (process_thread_entities json_loads user_id thread_id s0)) ! i)
          = full_name (customer_rows s0 ! i)" using f by simp
  show "cu_status (customer_rows (snd (process_thread_entities json_loads user_id thread_id s0)) ! i)
          = cu_status (customer_rows s0 ! i)" using f by simp
  show "cu_company_id (customer_rows s0 ! i) = None
            \<or> cu_company_id
                 (customer_rows (snd (process_thread_entities json_loads user_id thread_id s0)) ! i)
               \<noteq> None" using f by blast
next
  fix p :: pstate and e c
  assume "find_customer (st p) user_id e = Some c"
  then show "st (customer_step user_id email_to_domain p e) =
          (case map_of email_to_domain e of
             None \<Rightarrow> st p
           | Some d \<Rightarrow>
               if d = [] then st p
               else (case map_of (domain_to_company_id p) d of
                       None \<Rightarrow> st p
                     | Some coid \<Rightarrow>
                         update_customer_company (customer_id c) user_id coid d (st p)))"
    by (rule customer_step_existing)
next
  fix p :: pstate and es :: "string list" and i
  assume "i < length (customer_rows (st p))"
  from upsert_customers_improves[OF this, of email_to_domain es user_id]
  show "customer_rows (st (upsert_customers user_id email_to_domain p es)) ! i
          = customer_rows (st p) ! i
        \<or> (\<exists>e \<in> set es. \<exists>d coid.
              map_of email_to_domain e = Some d \<and> map_of (domain_to_company_id p) d = Some coid
              \<and> customer_rows (st (upsert_customers user_id email_to_domain p es)) ! i
                  = (customer_rows (st p) ! i)\<lparr>cu_company_id := Some coid,
                                               domain_match := Some d\<rparr>)"
    unfolding improves_def by blast
qed

theorem resolution_keeps_company_association_witness:
  "cu_company_id (customer_rows (snd
      (process_thread_entities (\<lambda>t. DecodeError) ''u1'' ''t1'' known_customers_thread)) ! 0)
     \<noteq> None
   \<and> customer_rows (snd
       (process_thread_entities (\<lambda>t. DecodeError) ''u1'' ''t1'' known_customers_thread))
     = [\<lparr>customer_id = 11, cu_user_id = ''u1'', cu_email = ''bob@gmail.com'',
         full_name = ''Bob'', cu_company_id = Some 9, domain_match = Some ''bobs.example'',
         cu_status = ''active''\<rparr>,
        \<lparr>customer_id = 12, cu_user_id = ''u1'', cu_email = ''alice@acme.io'',
         full_name = ''Alice'', cu_company_id = Some 20, domain_match = Some ''acme.io'',
         cu_status = ''prospect''\<rparr>]"
proof -
  have l: "0 < length (customer_rows known_customers_thread)" by code_simp
  have c: "cu_company_id (customer_rows known_customers_thread ! 0) = Some 9" by code_simp
  have 1: "cu_company_id (customer_rows (snd
      (process_thread_entities (\<lambda>t. DecodeError) ''u1'' ''t1'' known_customers_thread)) ! 0)
     \<noteq> None"
    using resolution_keeps_company_association
      [of known_customers_thread "\<lambda>t. DecodeError" "''u1''" "''t1''",
        THEN conjunct2, THEN conjunct1, rule_format, OF l] c
    by simp
  have 2: "customer_rows (snd
       (process_thread_entities (\<lambda>t. DecodeError) ''u1'' ''t1'' known_customers_thread))
     = [\<lparr>customer_id = 11, cu_user_id = ''u1'', cu_email = ''bob@gmail.com'',
         full_name = ''Bob'', cu_company_id = Some 9, domain_match = Some ''bobs.example'',
         cu_status = ''active''\<rparr>,
        \<lparr>customer_id = 12, cu_user_id = ''u1'', cu_email = ''alice@acme.io'',
         full_name = ''Alice'', cu_company_id = Some 20, domain_match = Some ''acme.io'',
         cu_status = ''prospect''\<rparr>]"
    by code_simp
  show ?thesis using 1 2 by blast
qed

section \<open>The eligibility gate\<close>

lemma gate_step_fst:
  "fst (gate_step stages acc t) = fst acc @ (if eligible stages t then [t] else [])"
  by (simp add: gate_step_def eligible_def skip_reason_def split: gate_decision.splits)

lemma gate_step_snd:
  "map_of (snd (gate_step stages acc t)) x =
     (if x = t \<and> \<not> eligible stages t then skip_reason stages t else map_of (snd acc) x)"
  by (auto simp add: gate_step_def eligible_def skip_reason_def update_conv'
      split: gate_decision.splits)

lemma foldl_gate_fst:
  "fst (foldl (gate_step stages) acc ts) = fst acc @ filter (eligible stages) ts"
  by (induction ts arbitrary: acc) (simp_all add: gate_step_fst)

lemma foldl_gate_snd:
  "map_of (snd (foldl (gate_step stages) acc ts)) x =
     (if x \<in> set ts \<and> \<not> eligible stages x then skip_reason stages x else map_of (snd acc) x)"
proof (induction ts arbitrary: acc)
  case Nil
  then show ?case by simp
next
  case (Cons t ts)
  show ?case
    unfolding foldl.simps Cons.IH gate_step_snd by auto
qed

lemma gate_threads: "fst (idempotency_gate stages ts) = filter (eligible stages) ts"
  by (simp add: idempotency_gate_def foldl_gate_fst)

lemma gate_skipped:
  "map_of (snd (idempotency_gate stages ts)) x =
     (if x \<in> set ts then skip_reason stages x else None)"
  by (auto simp add: idempotency_gate_def foldl_gate_snd eligible_def)

lemma update_stage_Nil: "update_stage [] u x s = s"
  by (simp add: update_stage_def)

lemma queue_store:
  "go_store (queue_and_trigger trigger u ts result s) =
     update_stage (filter (eligible (thread_stages s u ts)) ts) u ''queued'' s"
proof -
  obtain tp sk where g: "idempotency_gate (thread_stages s u ts) ts = (tp, sk)" by force
  then have tp: "tp = filter (eligible (thread_stages s u ts)) ts"
    using gate_threads[of "thread_stages s u ts" ts] by simp
  show ?thesis
    using g tp by (cases "tp = []") (simp_all add: queue_and_trigger_def Let_def update_stage_Nil)
qed

lemma queue_triggered:
  "go_triggered (queue_and_trigger trigger u ts result s) =
     filter (eligible (thread_stages s u ts)) ts"
proof -
  obtain tp sk where g: "idempotency_gate (thread_stages s u ts) ts = (tp, sk)" by force
  then have tp: "tp = filter (eligible (thread_stages s u ts)) ts"
    using gate_threads[of "thread_stages s u ts" ts] by simp
  show ?thesis
    using g tp by (cases "tp = []") (simp_all add: queue_and_trigger_def Let_def)
qed

lemma queue_jobs:
  "jobs_triggered (go_result (queue_and_trigger trigger u ts result s)) =
     length (filter trigger (filter (eligible (thread_stages s u ts)) ts))"
proof -
  obtain tp sk where g: "idempotency_gate (thread_stages s u ts) ts = (tp, sk)" by force
  then have tp: "tp = filter (eligible (thread_stages s u ts)) ts"
    using gate_threads[of "thread_stages s u ts" ts] by simp
  show ?thesis
    using g tp by (cases "tp = []") (simp_all add: queue_and_trigger_def Let_def)
qed

lemma queue_skipped:
  assumes "skipped_threads result = []"
  shows "map_of (skipped_threads (go_result (queue_and_trigger trigger u ts result s))) x =
     (if x \<in> set ts then skip_reason (thread_stages s u ts) x else None)"
proof -
  obtain tp sk where g: "idempotency_gate (thread_stages s u ts) ts = (tp, sk)" by force
  then have sk: "map_of sk x = (if x \<in> set ts then skip_reason (thread_stages s u ts) x else None)"
    using gate_skipped[of "thread_stages s u ts" ts x] by simp
  have e: "sk = [] \<Longrightarrow> map_of (skipped_threads result) x = map_of sk x"
    using assms by simp
  show ?thesis
    using g sk e
    by (cases "tp = []"; cases "sk = []") (simp_all add: queue_and_trigger_def Let_def)
qed

lemma check_stage_unknown:
  "stage \<notin> set [''analyzing'', ''queued'', ''queued_for_analysis'', ''completed'', ''new'',
      ''pending'', ''resolving_entities''] \<Longrightarrow> check_stage (Some stage) = ProcessUnknown"
  by (simp add: check_stage_def)

lemma check_stage_known:
  "check_stage (Some ''analyzing'') = Skip ''already in 'analyzing' stage''"
  "check_stage (Some ''queued'') = Skip ''already in 'queued' stage''"
  "check_stage (Some ''queued_for_analysis'') = Skip ''already in 'queued_for_analysis' stage''"
  "check_stage (Some ''completed'') = Skip ''already completed''"
  "check_stage (Some ''new'') = Process"
  "check_stage (Some ''pending'') = Process"
  "check_stage (Some ''resolving_entities'') = Process"
  "check_stage None = Process"
  by code_simp+

lemma update_stage_rows:
  "length (stage_rows (update_stage ts u x s)) = length (stage_rows s)"
  "i < length (stage_rows s) \<Longrightarrow>
     stage_rows (update_stage ts u x s) ! i =
       (if sr_thread_id (stage_rows s ! i) \<in> set ts \<and> sr_user_id (stage_rows s ! i) = u
        then (stage_rows s ! i)\<lparr>current_stage := Some x\<rparr> else stage_rows s ! i)"
  by (simp_all add: update_stage_def)

text \<open>
  Claim C4, as the code has it. The stages analyzing, queued, queued_for_analysis and
  completed are skipped, each with its reason; new, pending, resolving_entities and a
  missing record are let through, and so is every other value (the branch that logs a
  warning). For every batch, the jobs triggered are those of the eligible threads, in
  input order, and \<open>jobs_triggered\<close> counts the calls that returned. The write of
  stage queued names the eligible threads: it sets queued on every stage row of an
  eligible thread of the tenant, leaves every other row as it was, and adds no row, so
  an eligible thread without a stage record still has none. The skipped threads, and
  only they, are in \<open>skipped_threads\<close> with their reason.
\<close>

theorem eligibility_gate:
  "check_stage (Some ''analyzing'') = Skip ''already in 'analyzing' stage''
   \<and> check_stage (Some ''queued'') = Skip ''already in 'queued' stage''
   \<and> check_stage (Some ''queued_for_analysis'') = Skip ''already in 'queued_for_analysis' stage''
   \<and> check_stage (Some ''completed'') = Skip ''already completed''
   \<and> check_stage (Some ''new'') = Process
   \<and> check_stage (Some ''pending'') = Process
   \<and> check_stage (Some ''resolving_entities'') = Process
   \<and> check_stage None = Process
   \<and> (\<forall>stage. stage \<notin> set [''analyzing'', ''queued'', ''queued_for_analysis'', ''completed'',
          ''new'', ''pending'', ''resolving_entities''] \<longrightarrow>
        check_stage (Some stage) = ProcessUnknown)
   \<and> go_triggered (queue_and_trigger trigger user_id thread_ids result s)
       = filter (eligible (thread_stages s user_id thread_ids)) thread_ids
   \<and> jobs_triggered (go_result (queue_and_trigger trigger user_id thread_ids result s))
       = length (filter trigger (filter (eligible (thread_stages s user_id thread_ids)) thread_ids))
   \<and> length (stage_rows (go_store (queue_and_trigger trigger user_id thread_ids result s)))
       = length (stage_rows s)
   \<and> (\<forall>i < length (stage_rows s).
        stage_rows (go_store (queue_and_trigger trigger user_id thread_ids result s)) ! i =
          (if sr_thread_id (stage_rows s ! i) \<in> set thread_ids
              \<and> eligible (thread_stages s user_id thread_ids) (sr_thread_id (stage_rows s ! i))
              \<and> sr_user_id (stage_rows s ! i) = user_id
           then (stage_rows s ! i)\<lparr>current_stage := Some ''queued''\<rparr>
           else stage_rows s ! i))
   \<and> (skipped_threads result = [] \<longrightarrow>
        (\<forall>t. map_of (skipped_threads
                 (go_result (queue_and_trigger trigger user_id thread_ids result s))) t
             = (if t \<in> set thread_ids then skip_reason (thread_stages s user_id thread_ids) t
                else None)))"
proof -
  let ?out = "queue_and_trigger trigger user_id thread_ids result s"
  let ?el = "eligible (thread_stages s user_id thread_ids)"
  have rows: "length (stage_rows (go_store ?out)) = length (stage_rows s)"
    unfolding queue_store by (rule update_stage_rows(1))
  have each: "\<forall>i < length (stage_rows s).
        stage_rows (go_store ?out) ! i =
          (if sr_thread_id (stage_rows s ! i) \<in> set thread_ids
              \<and> ?el (sr_thread_id (stage_rows s ! i))
              \<and> sr_user_id (stage_rows s ! i) = user_id
           then (stage_rows s ! i)\<lparr>current_stage := Some ''queued''\<rparr>
           else stage_rows s ! i)"
    unfolding queue_store by (simp add: update_stage_rows(2))
  have sk: "skipped_threads result = [] \<longrightarrow>
        (\<forall>t. map_of (skipped_threads (go_result ?out)) t
             = (if t \<in> set thread_ids then skip_reason (thread_stages s user_id thread_ids) t
                else None))"
    using queue_skipped by blast
  have unk: "\<forall>stage. stage \<notin> set [''analyzing'', ''queued'', ''queued_for_analysis'',
          ''completed'', ''new'', ''pending'', ''resolving_entities''] \<longrightarrow>
        check_stage (Some stage) = ProcessUnknown"
    using check_stage_unknown by blast
  show ?thesis
    using check_stage_known unk queue_triggered[of trigger user_id thread_ids result s]
      queue_jobs[of trigger user_id thread_ids result s] rows each sk
    by blast
qed

theorem eligibility_gate_witness:
  "go_triggered (queue_and_trigger (\<lambda>t. t \<noteq> ''t4'') ''u1'' [''t1'', ''t2'', ''t3'', ''t4'', ''t5'']
      (rs_result (initial_rstate staged_store)) staged_store) = [''t2'', ''t4'', ''t5'']
   \<and> jobs_triggered (go_result (queue_and_trigger (\<lambda>t. t \<noteq> ''t4'') ''u1''
        [''t1'', ''t2'', ''t3'', ''t4'', ''t5''] (rs_result (initial_rstate staged_store))
        staged_store)) = 2
   \<and> map current_stage (stage_rows (go_store (queue_and_trigger (\<lambda>t. t \<noteq> ''t4'') ''u1''
        [''t1'', ''t2'', ''t3'', ''t4'', ''t5''] (rs_result (initial_rstate staged_store))
        staged_store)))
       = [Some ''queued'', Some ''queued'', Some ''completed'', Some ''queued'']
   \<and> skipped_threads (go_result (queue_and_trigger (\<lambda>t. t \<noteq> ''t4'') ''u1''
        [''t1'', ''t2'', ''t3'', ''t4'', ''t5''] (rs_result (initial_rstate staged_store))
        staged_store))
       = [(''t1'', ''already in 'queued' stage''), (''t3'', ''already completed'')]"
proof -
  let ?ts = "[''t1'', ''t2'', ''t3'', ''t4'', ''t5'']"
  let ?out = "queue_and_trigger (\<lambda>t. t \<noteq> ''t4'') ''u1'' ?ts
      (rs_result (initial_rstate staged_store)) staged_store"
  have f: "filter (eligible (thread_stages staged_store ''u1'' ?ts)) ?ts = [''t2'', ''t4'', ''t5'']"
    by code_simp
  have 1: "go_triggered ?out = [''t2'', ''t4'', ''t5'']"
    using eligibility_gate [of "\<lambda>t. t \<noteq> ''t4''" "''u1''" ?ts
        "rs_result (initial_rstate staged_store)" staged_store] f
    by simp
  have 2: "jobs_triggered (go_result ?out) = 2" by code_simp
  have 3: "map current_stage (stage_rows (go_store ?out))
       = [Some ''queued'', Some ''queued'', Some ''completed'', Some ''queued'']" by code_simp
  have 4: "skipped_threads (go_result ?out)
       = [(''t1'', ''already in 'queued' stage''), (''t3'', ''already completed'')]" by code_simp
  show ?thesis using 1 2 3 4 by blast
qed

text \<open>
  A thread without a stage record is eligible and its job is triggered, but the update
  creates no record for it: after the run its stage is not queued.
\<close>

theorem eligible_thread_without_record_not_queued:
  "eligible (thread_stages webmail_thread ''u1'' [''t1'']) ''t1''
   \<and> go_triggered (resolve_thread_entities (\<lambda>t. DecodeError) (\<lambda>t. True) ''u1'' [''t1'']
        webmail_thread) = [''t1'']
   \<and> stage_rows (go_store (resolve_thread_entities (\<lambda>t. DecodeError) (\<lambda>t. True) ''u1''
        [''t1''] webmail_thread)) = []
   \<and> stage_get (thread_stages (go_store (resolve_thread_entities (\<lambda>t. DecodeError)
        (\<lambda>t. True) ''u1'' [''t1''] webmail_thread)) ''u1'' [''t1'']) ''t1'' = None"
  by code_simp

section \<open>Analysis: persisting next steps\<close>

lemma next_step_loop_pending:
  "next_step_loop sp s u t acc step =
     acc @ (case pending_row sp s u t step of None \<Rightarrow> [] | Some r \<Rightarrow> [r])"
  by (simp add: next_step_loop_def pending_row_def split: option.splits)

lemma foldl_next_step_loop:
  "foldl (next_step_loop sp s u t) acc steps = acc @ List.map_filter (pending_row sp s u t) steps"
proof (induction steps arbitrary: acc)
  case Nil
  then show ?case by (simp add: List.map_filter_simps)
next
  case (Cons x xs)
  have "foldl (next_step_loop sp s u t) acc (x # xs)
          = foldl (next_step_loop sp s u t) (next_step_loop sp s u t acc x) xs" by simp
  also have "\<dots> = next_step_loop sp s u t acc x @ List.map_filter (pending_row sp s u t) xs"
    by (rule Cons.IH)
  also have "\<dots> = acc @ List.map_filter (pending_row sp s u t) (x # xs)"
    unfolding next_step_loop_pending by (simp add: List.map_filter_simps split: option.splits)
  finally show ?case .
qed

lemma number_rows_Nil [simp]: "number_rows k [] = []"
  by (simp add: number_rows_def)

lemma number_rows_shift:
  "map (\<lambda>(i, r). r\<lparr>step_id := k + i\<rparr>) (enumerate n rows)
     = map (\<lambda>(i, r). r\<lparr>step_id := (k + n) + i\<rparr>) (enumerate 0 rows)"
proof (induction rows arbitrary: n k)
  case Nil
  then show ?case by simp
next
  case (Cons r rs)
  have a: "map (\<lambda>(i, r). r\<lparr>step_id := k + i\<rparr>) (enumerate (Suc n) rs)
         = map (\<lambda>(i, r). r\<lparr>step_id := (k + Suc n) + i\<rparr>) (enumerate 0 rs)"
    by (rule Cons.IH)
  have b: "map (\<lambda>(i, r). r\<lparr>step_id := (k + n) + i\<rparr>) (enumerate (Suc 0) rs)
         = map (\<lambda>(i, r). r\<lparr>step_id := ((k + n) + Suc 0) + i\<rparr>) (enumerate 0 rs)"
    by (rule Cons.IH)
  show ?case using a b by simp
qed

lemma number_rows_append:
  "number_rows k (a @ b) = number_rows k a @ number_rows (k + length a) b"
  unfolding number_rows_def enumerate_append_eq
  using number_rows_shift[of k "length a" b] by simp

lemma number_rows_Cons:
  "number_rows k (r # rs) = r\<lparr>step_id := k\<rparr> # number_rows (Suc k) rs"
  using number_rows_append[of k "[r]" rs] by (simp add: number_rows_def)

lemma number_rows_descriptions:
  "map description (number_rows k rows) = map description rows"
  by (induction rows arbitrary: k) (simp_all add: number_rows_Cons)

lemma number_rows_threads:
  "map ns_thread_id (number_rows k rows) = map ns_thread_id rows"
  by (induction rows arbitrary: k) (simp_all add: number_rows_Cons)

lemma persist_next_steps_rows:
  "next_step_rows (persist_next_steps sp u t steps s) =
     next_step_rows s @ number_rows (next_key s) (List.map_filter (pending_row sp s u t) steps)"
  by (simp add: persist_next_steps_def Let_def foldl_next_step_loop)

lemma check_next_step_exists_iff:
  "check_next_step_exists s t d \<longleftrightarrow>
     d \<noteq> [] \<and> (\<exists>r \<in> set (next_step_rows s). ns_thread_id r = t \<and> description r \<noteq> []
                  \<and> strip (lower (description r)) = strip (lower d))"
  by (auto simp: check_next_step_exists_def Let_def list_ex_iff)

lemma check_next_step_exists_cong:
  "next_step_rows s' = next_step_rows s \<Longrightarrow>
     check_next_step_exists s' t d = check_next_step_exists s t d"
  by (simp add: check_next_step_exists_iff)

lemma check_next_step_exists_variant:
  "d1 \<noteq> [] \<Longrightarrow> d2 \<noteq> [] \<Longrightarrow> strip (lower d1) = strip (lower d2) \<Longrightarrow>
     check_next_step_exists s t d2 = check_next_step_exists s t d1"
  by (simp add: check_next_step_exists_iff)

lemma pending_row_cong:
  assumes "next_step_rows s' = next_step_rows s"
  shows "pending_row sp s' u t = pending_row sp s u t"
proof (rule ext)
  fix step
  have "\<And>d. check_next_step_exists s' t d = check_next_step_exists s t d"
    using assms by (rule check_next_step_exists_cong)
  then show "pending_row sp s' u t step = pending_row sp s u t step"
    unfolding pending_row_def by (simp split: option.splits)
qed

lemma pending_row_Some:
  "pending_row sp s u t step = Some r \<Longrightarrow>
     ls_text step = Some (description r) \<and> description r \<noteq> []
     \<and> \<not> check_next_step_exists s t (description r) \<and> ns_thread_id r = t"
  by (auto simp: pending_row_def split: option.splits if_splits)

lemma pending_row_None:
  "ls_text step = Some d \<Longrightarrow> check_next_step_exists s t d \<Longrightarrow> pending_row sp s u t step = None"
  by (simp add: pending_row_def)

lemma pending_row_new:
  "ls_text step = Some d \<Longrightarrow> d \<noteq> [] \<Longrightarrow> \<not> check_next_step_exists s t d \<Longrightarrow>
     \<exists>r. pending_row sp s u t step = Some r \<and> description r = d \<and> ns_thread_id r = t"
  by (simp add: pending_row_def)

lemma update_thread_frame [simp]:
  "next_step_rows (update_thread u t now a s) = next_step_rows s"
  "next_key (update_thread u t now a s) = next_key s"
  "participant_rows (update_thread u t now a s) = participant_rows s"
  by (simp_all add: update_thread_def Let_def)

lemma persist_feature_requests_frame [simp]:
  "next_step_rows (persist_feature_requests u t frs s) = next_step_rows s"
  by (simp add: persist_feature_requests_def)

lemma persist_after_update_thread:
  "next_step_rows (persist_next_steps sp u t steps (update_thread u t now a s))
     = next_step_rows (persist_next_steps sp u t steps s)"
  unfolding persist_next_steps_rows
  by (simp add: pending_row_cong[of "update_thread u t now a s" s])

lemma persist_single_duplicate:
  "ls_text step = Some d \<Longrightarrow> check_next_step_exists s t d \<Longrightarrow>
     persist_next_steps sp u t [step] s = s"
  by (simp add: persist_next_steps_def Let_def next_step_loop_def)

lemma persist_variant_rows:
  assumes "ls_text step1 = Some d1" "ls_text step2 = Some d2" "d1 \<noteq> []" "d2 \<noteq> []"
    "strip (lower d1) = strip (lower d2)"
  shows "next_step_rows (persist_next_steps sp2 u2 t [step2] (persist_next_steps sp u t [step1] s))
           = next_step_rows (persist_next_steps sp u t [step1] s)"
proof -
  let ?s1 = "persist_next_steps sp u t [step1] s"
  have "check_next_step_exists ?s1 t d1"
  proof (cases "check_next_step_exists s t d1")
    case True
    then have "?s1 = s" using assms(1) by (rule persist_single_duplicate[rotated])
    then show ?thesis using True by simp
  next
    case False
    then obtain r where r: "pending_row sp s u t step1 = Some r" "description r = d1"
      "ns_thread_id r = t"
      using pending_row_new[OF assms(1) assms(3), of s t sp u] by blast
    have "next_step_rows ?s1 = next_step_rows s @ [r\<lparr>step_id := next_key s\<rparr>]"
      unfolding persist_next_steps_rows using r
      by (simp add: List.map_filter_simps number_rows_Cons)
    then show ?thesis
      unfolding check_next_step_exists_iff using r assms(3) by auto
  qed
  then have "check_next_step_exists ?s1 t d2"
    using check_next_step_exists_variant[OF assms(3) assms(4) assms(5)] by simp
  then have "persist_next_steps sp2 u2 t [step2] ?s1 = ?s1"
    using assms(2) by (rule persist_single_duplicate[rotated])
  then show ?thesis by simp
qed

lemma persist_new_rows_fresh:
  assumes "r \<in> set (drop (length (next_step_rows s))
                    (next_step_rows (persist_next_steps sp u t steps s)))"
  shows "description r \<noteq> [] \<and> \<not> check_next_step_exists s t (description r)
         \<and> ns_thread_id r = t"
proof -
  from assms have "r \<in> set (number_rows (next_key s) (List.map_filter (pending_row sp s u t) steps))"
    unfolding persist_next_steps_rows by simp
  then obtain i where i: "i < length (List.map_filter (pending_row sp s u t) steps)"
    "r = number_rows (next_key s) (List.map_filter (pending_row sp s u t) steps) ! i"
    by (metis in_set_conv_nth length_map number_rows_descriptions)
  let ?rows = "List.map_filter (pending_row sp s u t) steps"
  have d: "description r = description (?rows ! i)"
    using i number_rows_descriptions[of "next_key s" ?rows]
    by (metis length_map nth_map)
  have th: "ns_thread_id r = ns_thread_id (?rows ! i)"
    using i number_rows_threads[of "next_key s" ?rows]
    by (metis length_map nth_map)
  have "?rows ! i \<in> set ?rows" using i by simp
  then obtain step where "pending_row sp s u t step = Some (?rows ! i)"
    by (auto simp: List.map_filter_def)
  from pending_row_Some[OF this] d th show ?thesis by simp
qed

lemma analyze_thread_Some:
  assumes "List.find (\<lambda>r. t_thread_id r = t \<and> t_user_id r = u) (thread_rows s) = Some td"
  shows "analyze_thread env u t s =
     (let all_messages = filter (\<lambda>m. m_thread_id m = t \<and> m_user_id m = u) (message_rows s);
          analysis_mode = (if last_analyzed_at td = None then ''full'' else ''incremental'');
          msgs = (case last_analyzed_at td of
                    None \<Rightarrow> all_messages
                  | Some last_at \<Rightarrow> filter (is_new_message (fromisoformat env) last_at) all_messages)
      in if all_messages = [] then analysis_failed u t NoMessagesFound [] s
         else if msgs = [] then
           \<lparr>ao_result = \<lparr>ar_success = True, ar_thread_id = t, ar_errors = [],
                          ar_analysis = SkippedAnalysis ''incremental'' True ''No new messages''\<rparr>,
            ao_store = update_stage [t] u ''completed'' s,
            ao_prompts = []\<rparr>
         else
           (case build_transcript msgs (build_participants s u t) of
              Inl e \<Rightarrow> analysis_failed u t e [] s
            | Inr transcript \<Rightarrow>
                (let full_prompt =
                       (if analysis_mode = ''incremental''
                        then IncrementalPrompt
                               (case summary td of
                                  None \<Rightarrow> ''No previous summary''
                                | Some old \<Rightarrow> if old = [] then ''No previous summary'' else old)
                               transcript
                        else FullPrompt transcript)
                 in case llm env full_prompt of
                      None \<Rightarrow> analysis_failed u t LLMResponseUnusable [full_prompt] s
                    | Some a \<Rightarrow>
                        (let s1 = update_thread u t (now_iso env) a s;
                             s2 = persist_next_steps (strptime_date env) u t (la_next_steps a) s1;
                             s3 = persist_feature_requests u t (la_feature_requests a) s2;
                             s4 = update_stage [t] u ''completed'' s3
                         in \<lparr>ao_result =
                               \<lparr>ar_success = True, ar_thread_id = t, ar_errors = [],
                                ar_analysis = Analyzed
                                  \<lparr>ai_mode = analysis_mode,
                                   ai_problem_statement = la_problem_statement a,
                                   ai_timeline_summary = la_timeline_summary a,
                                   ai_sentiment = la_customer_sentiment a,
                                   ai_sentiment_score = la_sentiment_score a,
                                   ai_resolution_status = la_resolution_status a,
                                   ai_next_steps_count = length (la_next_steps a),
                                   ai_feature_requests_count = length (la_feature_requests a),
                                   ai_last_analyzed_at = now_iso env\<rparr>\<rparr>,
                             ao_store = s4,
                             ao_prompts = [full_prompt]\<rparr>))))"
  unfolding analyze_thread_def assms by (simp only: option.case)

lemma analyze_thread_None:
  assumes "List.find (\<lambda>r. t_thread_id r = t \<and> t_user_id r = u) (thread_rows s) = None"
  shows "analyze_thread env u t s = analysis_failed u t ThreadNotFound [] s"
  unfolding analyze_thread_def assms by (simp only: option.case)

lemma analysis_failed_sel [simp]:
  "ao_prompts (analysis_failed u t e ps s) = ps"
  "ao_store (analysis_failed u t e ps s) = update_stage [t] u ''failed'' s"
  "ar_success (ao_result (analysis_failed u t e ps s)) = False"
  by (simp_all add: analysis_failed_def)

lemma analyze_next_steps:
  assumes p: "ao_prompts (analyze_thread env u t s) = [p]" and a: "llm env p = Some a"
  shows "next_step_rows (ao_store (analyze_thread env u t s))
           = next_step_rows (persist_next_steps (strptime_date env) u t (la_next_steps a) s)"
proof (cases "List.find (\<lambda>r. t_thread_id r = t \<and> t_user_id r = u) (thread_rows s)")
  case None
  with p show ?thesis by (simp add: analyze_thread_None)
next
  case (Some td)
  note eq = analyze_thread_Some[OF Some, of env]
  let ?all = "filter (\<lambda>m. m_thread_id m = t \<and> m_user_id m = u) (message_rows s)"
  let ?msgs = "case last_analyzed_at td of
                 None \<Rightarrow> ?all
               | Some last_at \<Rightarrow> filter (is_new_message (fromisoformat env) last_at) ?all"
  show ?thesis
  proof (cases "?all = []")
    case True
    with p eq show ?thesis by (simp add: Let_def)
  next
    case all: False
    show ?thesis
    proof (cases "?msgs = []")
      case True
      with p eq all show ?thesis by (simp add: Let_def)
    next
      case msgs: False
      show ?thesis
      proof (cases "build_transcript ?msgs (build_participants s u t)")
        case (Inl e)
        with p eq all msgs show ?thesis by (simp add: Let_def)
      next
        case (Inr tr)
        let ?fp = "if (if last_analyzed_at td = None then ''full'' else ''incremental'')
                        = ''incremental''
                   then IncrementalPrompt
                          (case summary td of
                             None \<Rightarrow> ''No previous summary''
                           | Some old \<Rightarrow> if old = [] then ''No previous summary'' else old) tr
                   else FullPrompt tr"
        show ?thesis
        proof (cases "llm env ?fp")
          case None
          have "ao_prompts (analyze_thread env u t s) = [?fp]"
            unfolding eq using all msgs Inr None by (simp add: Let_def)
          with p have "p = ?fp" by simp
          with a None show ?thesis by simp
        next
          case (Some a')
          have pr: "ao_prompts (analyze_thread env u t s) = [?fp]"
            unfolding eq using all msgs Inr Some by (simp add: Let_def)
          with p have "p = ?fp" by simp
          with a Some have aa: "a' = a" by simp
          have "next_step_rows (ao_store (analyze_thread env u t s))
                  = next_step_rows (persist_next_steps (strptime_date env) u t (la_next_steps a)
                      (update_thread u t (now_iso env) a s))"
            unfolding eq using all msgs Inr Some aa by (simp add: Let_def)
          then show ?thesis by (simp add: persist_after_update_thread)
        qed
      qed
    qed
  qed
qed

lemma map_filter_append:
  "List.map_filter f (xs @ ys) = List.map_filter f xs @ List.map_filter f ys"
  by (simp add: List.map_filter_def)

lemma persist_keeps_both:
  assumes "steps = xs @ step1 # ys @ step2 # zs"
    and "ls_text step1 = Some d1" "ls_text step2 = Some d2" "d1 \<noteq> []" "d2 \<noteq> []"
    and "strip (lower d1) = strip (lower d2)" "\<not> check_next_step_exists s t d1"
  shows "\<exists>pre mid post r1 r2.
           next_step_rows (persist_next_steps sp u t steps s)
             = next_step_rows s @ pre @ r1 # mid @ r2 # post
           \<and> description r1 = d1 \<and> description r2 = d2
           \<and> ns_thread_id r1 = t \<and> ns_thread_id r2 = t"
proof -
  let ?f = "pending_row sp s u t"
  obtain q1 where q1: "?f step1 = Some q1" "description q1 = d1" "ns_thread_id q1 = t"
    using pending_row_new[OF assms(2) assms(4) assms(7), of sp u] by blast
  have "\<not> check_next_step_exists s t d2"
    using check_next_step_exists_variant[OF assms(4) assms(5) assms(6), of s t] assms(7) by simp
  then obtain q2 where q2: "?f step2 = Some q2" "description q2 = d2" "ns_thread_id q2 = t"
    using pending_row_new[OF assms(3) assms(5), of s t sp u] by blast
  let ?a = "List.map_filter ?f xs" and ?b = "List.map_filter ?f ys"
    and ?c = "List.map_filter ?f zs"
  have mf: "List.map_filter ?f steps = ?a @ q1 # ?b @ q2 # ?c"
    unfolding assms(1) using q1(1) q2(1)
    by (simp add: map_filter_append List.map_filter_simps)
  let ?k = "next_key s"
  have nr: "number_rows ?k (?a @ q1 # ?b @ q2 # ?c) =
          number_rows ?k ?a @ q1\<lparr>step_id := ?k + length ?a\<rparr>
            # number_rows (Suc (?k + length ?a)) ?b
            @ q2\<lparr>step_id := Suc (?k + length ?a) + length ?b\<rparr>
            # number_rows (Suc (Suc (?k + length ?a) + length ?b)) ?c"
    by (simp add: number_rows_append number_rows_Cons)
  have "next_step_rows (persist_next_steps sp u t steps s)
          = next_step_rows s @ number_rows ?k ?a @ q1\<lparr>step_id := ?k + length ?a\<rparr>
            # number_rows (Suc (?k + length ?a)) ?b
            @ q2\<lparr>step_id := Suc (?k + length ?a) + length ?b\<rparr>
            # number_rows (Suc (Suc (?k + length ?a) + length ?b)) ?c"
    unfolding persist_next_steps_rows mf nr ..
  moreover have "description (q1\<lparr>step_id := ?k + length ?a\<rparr>) = d1"
    "description (q2\<lparr>step_id := Suc (?k + length ?a) + length ?b\<rparr>) = d2"
    "ns_thread_id (q1\<lparr>step_id := ?k + length ?a\<rparr>) = t"
    "ns_thread_id (q2\<lparr>step_id := Suc (?k + length ?a) + length ?b\<rparr>) = t"
    using q1 q2 by simp_all
  ultimately show ?thesis by blast
qed

text \<open>
  Claim C10. When a run of \<open>analyze_thread\<close> reaches the LLM and the answer lists
  two next steps whose descriptions are not empty and equal up to case and surrounding
  whitespace, and no stored next step of the thread has such a description, then both
  are inserted: the stored next steps are the old ones followed by new rows among which
  both items appear, in the order of the answer. The duplicate check reads the stored
  rows only.
\<close>

theorem duplicates_within_one_batch_both_inserted:
  "ao_prompts (analyze_thread env user_id thread_id s) = [p] \<and> llm env p = Some a
   \<and> la_next_steps a = xs @ step1 # ys @ step2 # zs
   \<and> ls_text step1 = Some d1 \<and> ls_text step2 = Some d2 \<and> d1 \<noteq> [] \<and> d2 \<noteq> []
   \<and> strip (lower d1) = strip (lower d2)
   \<and> \<not> check_next_step_exists s thread_id d1
   \<longrightarrow> (\<exists>pre mid post r1 r2.
          next_step_rows (ao_store (analyze_thread env user_id thread_id s))
            = next_step_rows s @ pre @ r1 # mid @ r2 # post
          \<and> description r1 = d1 \<and> description r2 = d2
          \<and> ns_thread_id r1 = thread_id \<and> ns_thread_id r2 = thread_id)"
proof
  assume h: "ao_prompts (analyze_thread env user_id thread_id s) = [p] \<and> llm env p = Some a
   \<and> la_next_steps a = xs @ step1 # ys @ step2 # zs
   \<and> ls_text step1 = Some d1 \<and> ls_text step2 = Some d2 \<and> d1 \<noteq> [] \<and> d2 \<noteq> []
   \<and> strip (lower d1) = strip (lower d2)
   \<and> \<not> check_next_step_exists s thread_id d1"
  then have rows: "next_step_rows (ao_store (analyze_thread env user_id thread_id s))
      = next_step_rows (persist_next_steps (strptime_date env) user_id thread_id
          (la_next_steps a) s)"
    using analyze_next_steps by blast
  from h have "\<exists>pre mid post r1 r2.
           next_step_rows (persist_next_steps (strptime_date env) user_id thread_id
             (la_next_steps a) s)
             = next_step_rows s @ pre @ r1 # mid @ r2 # post
           \<and> description r1 = d1 \<and> description r2 = d2
           \<and> ns_thread_id r1 = thread_id \<and> ns_thread_id r2 = thread_id"
    using persist_keeps_both[of "la_next_steps a" xs step1 ys step2 zs d1 d2 s thread_id]
    by blast
  then show "\<exists>pre mid post r1 r2.
          next_step_rows (ao_store (analyze_thread env user_id thread_id s))
            = next_step_rows s @ pre @ r1 # mid @ r2 # post
          \<and> description r1 = d1 \<and> description r2 = d2
          \<and> ns_thread_id r1 = thread_id \<and> ns_thread_id r2 = thread_id"
    unfolding rows .
qed

lemma persist_single_rows:
  assumes "ls_text step1 = Some d1" "d1 \<noteq> []"
  shows "check_next_step_exists (persist_next_steps sp u t [step1] s) t d1
         \<and> (filter (\<lambda>r. ns_thread_id r = t) (next_step_rows s) = [] \<longrightarrow>
              length (filter (\<lambda>r. ns_thread_id r = t)
                (next_step_rows (persist_next_steps sp u t [step1] s))) = 1)"
proof (cases "check_next_step_exists s t d1")
  case True
  then have e: "persist_next_steps sp u t [step1] s = s"
    using assms(1) by (rule persist_single_duplicate[rotated])
  have "filter (\<lambda>r. ns_thread_id r = t) (next_step_rows s) \<noteq> []"
    using True unfolding check_next_step_exists_iff by (auto simp: filter_empty_conv)
  then show ?thesis using True e by simp
next
  case False
  then obtain r where r: "pending_row sp s u t step1 = Some r" "description r = d1"
    "ns_thread_id r = t"
    using pending_row_new[OF assms(1) assms(2), of s t sp u] by blast
  have rows: "next_step_rows (persist_next_steps sp u t [step1] s)
                = next_step_rows s @ [r\<lparr>step_id := next_key s\<rparr>]"
    unfolding persist_next_steps_rows using r
    by (simp add: List.map_filter_simps number_rows_Cons)
  show ?thesis
    unfolding check_next_step_exists_iff rows using r assms(2) by auto
qed

lemma two_runs:
  assumes r1: "ao_prompts (analyze_thread env1 u t s) = [p1]" "llm env1 p1 = Some a1"
      "la_next_steps a1 = [step1]"
    and r2: "ao_prompts (analyze_thread env2 u t (ao_store (analyze_thread env1 u t s))) = [p2]"
      "llm env2 p2 = Some a2" "la_next_steps a2 = [step2]"
    and d: "ls_text step1 = Some d1" "ls_text step2 = Some d2" "d1 \<noteq> []" "d2 \<noteq> []"
      "strip (lower d1) = strip (lower d2)"
  shows "next_step_rows (ao_store (analyze_thread env2 u t (ao_store (analyze_thread env1 u t s))))
           = next_step_rows (ao_store (analyze_thread env1 u t s))
         \<and> (filter (\<lambda>r. ns_thread_id r = t) (next_step_rows s) = [] \<longrightarrow>
              length (filter (\<lambda>r. ns_thread_id r = t)
                (next_step_rows (ao_store
                   (analyze_thread env2 u t (ao_store (analyze_thread env1 u t s)))))) = 1)"
proof -
  let ?s1 = "ao_store (analyze_thread env1 u t s)"
  let ?q = "persist_next_steps (strptime_date env1) u t [step1] s"
  have rows1: "next_step_rows ?s1 = next_step_rows ?q"
    using analyze_next_steps[OF r1(1) r1(2)] r1(3) by simp
  have "check_next_step_exists ?q t d1"
    using persist_single_rows[OF d(1) d(3)] by blast
  then have "check_next_step_exists ?s1 t d1"
    using check_next_step_exists_cong[OF rows1] by simp
  then have "check_next_step_exists ?s1 t d2"
    using check_next_step_exists_variant[OF d(3) d(4) d(5)] by simp
  then have "persist_next_steps (strptime_date env2) u t [step2] ?s1 = ?s1"
    using d(2) by (rule persist_single_duplicate[rotated])
  then have rows2: "next_step_rows (ao_store (analyze_thread env2 u t ?s1)) = next_step_rows ?s1"
    using analyze_next_steps[OF r2(1) r2(2)] r2(3) by simp
  show ?thesis
    unfolding rows2 rows1 using persist_single_rows[OF d(1) d(3), of "strptime_date env1" u t s]
    by blast
qed

text \<open>
  Claim C6. Persisting next steps keeps the stored rows and appends only rows whose
  description is not empty and matches no stored description of the thread, where
  matching is equality after lower-casing and stripping; an item that matches is
  skipped and the store is left as it is. Across two runs of \<open>analyze_thread\<close> that
  reach the LLM, the first answering one next step and the second a variant of it in
  case or surrounding whitespace, the second run leaves the stored next steps as the
  first left them; when the thread had no next step before, it has exactly one after.
  \<open>Follow up with legal\<close> and \<open>follow up with legal\<close> followed by two spaces are
  such variants.
\<close>

theorem next_step_duplicates_skipped_across_runs:
  "take (length (next_step_rows s)) (next_step_rows (persist_next_steps sp user_id thread_id steps s))
     = next_step_rows s
   \<and> (\<forall>r \<in> set (drop (length (next_step_rows s))
                   (next_step_rows (persist_next_steps sp user_id thread_id steps s))).
         description r \<noteq> [] \<and> \<not> check_next_step_exists s thread_id (description r))
   \<and> (check_next_step_exists s thread_id d \<longleftrightarrow>
         d \<noteq> [] \<and> (\<exists>r \<in> set (next_step_rows s). ns_thread_id r = thread_id
                       \<and> description r \<noteq> []
                       \<and> strip (lower (description r)) = strip (lower d)))
   \<and> (ls_text step = Some d \<and> check_next_step_exists s thread_id d \<longrightarrow>
         persist_next_steps sp user_id thread_id [step] s = s)
   \<and> (ao_prompts (analyze_thread env1 user_id thread_id s) = [p1] \<and> llm env1 p1 = Some a1
        \<and> la_next_steps a1 = [step1]
        \<and> ao_prompts (analyze_thread env2 user_id thread_id
             (ao_store (analyze_thread env1 user_id thread_id s))) = [p2]
        \<and> llm env2 p2 = Some a2 \<and> la_next_steps a2 = [step2]
        \<and> ls_text step1 = Some d1 \<and> ls_text step2 = Some d2 \<and> d1 \<noteq> [] \<and> d2 \<noteq> []
        \<and> strip (lower d1) = strip (lower d2)
        \<longrightarrow> next_step_rows (ao_store (analyze_thread env2 user_id thread_id
                (ao_store (analyze_thread env1 user_id thread_id s))))
              = next_step_rows (ao_store (analyze_thread env1 user_id thread_id s))
            \<and> (filter (\<lambda>r. ns_thread_id r = thread_id) (next_step_rows s) = [] \<longrightarrow>
                 length (filter (\<lambda>r. ns_thread_id r = thread_id)
                   (next_step_rows (ao_store (analyze_thread env2 user_id thread_id
                      (ao_store (analyze_thread env1 user_id thread_id s)))))) = 1))
   \<and> strip (lower ''Follow up with legal'') = strip (lower ''follow up with legal  '')"
proof (intro conjI)
  show "take (length (next_step_rows s))
          (next_step_rows (persist_next_steps sp user_id thread_id steps s)) = next_step_rows s"
    unfolding persist_next_steps_rows by simp
  show "\<forall>r \<in> set (drop (length (next_step_rows s))
                   (next_step_rows (persist_next_steps sp user_id thread_id steps s))).
         description r \<noteq> [] \<and> \<not> check_next_step_exists s thread_id (description r)"
    using persist_new_rows_fresh by blast
  show "check_next_step_exists s thread_id d \<longleftrightarrow>
         d \<noteq> [] \<and> (\<exists>r \<in> set (next_step_rows s). ns_thread_id r = thread_id
                       \<and> description r \<noteq> []
                       \<and> strip (lower (description r)) = strip (lower d))"
    by (rule check_next_step_exists_iff)
  show "ls_text step = Some d \<and> check_next_step_exists s thread_id d \<longrightarrow>
         persist_next_steps sp user_id thread_id [step] s = s"
    using persist_single_duplicate by blast
  show "strip (lower ''Follow up with legal'') = strip (lower ''follow up with legal  '')"
    by code_simp
  show "ao_prompts (analyze_thread env1 user_id thread_id s) = [p1] \<and> llm env1 p1 = Some a1
        \<and> la_next_steps a1 = [step1]
        \<and> ao_prompts (analyze_thread env2 user_id thread_id
             (ao_store (analyze_thread env1 user_id thread_id s))) = [p2]
        \<and> llm env2 p2 = Some a2 \<and> la_next_steps a2 = [step2]
        \<and> ls_text step1 = Some d1 \<and> ls_text step2 = Some d2 \<and> d1 \<noteq> [] \<and> d2 \<noteq> []
        \<and> strip (lower d1) = strip (lower d2)
        \<longrightarrow> next_step_rows (ao_store (analyze_thread env2 user_id thread_id
                (ao_store (analyze_thread env1 user_id thread_id s))))
              = next_step_rows (ao_store (analyze_thread env1 user_id thread_id s))
            \<and> (filter (\<lambda>r. ns_thread_id r = thread_id) (next_step_rows s) = [] \<longrightarrow>
                 length (filter (\<lambda>r. ns_thread_id r = thread_id)
                   (next_step_rows (ao_store (analyze_thread env2 user_id thread_id
                      (ao_store (analyze_thread env1 user_id thread_id s)))))) = 1)"
    using two_runs[of env1 user_id thread_id s p1 a1 step1 env2 p2 a2 step2 d1 d2] by blast
qed

lemma build_transcript_small:
  assumes "total_text msgs = Some t" "length t < 400004"
  shows "build_transcript msgs parts = Inr (construct_transcript msgs parts)"
proof -
  have "\<not> estimate_tokens t > 100000"
    using assms(2) by (simp add: estimate_tokens_def)
  then show ?thesis using assms(1) by (simp add: build_transcript_def)
qed

lemma analyze_thread_success:
  assumes td: "List.find (\<lambda>r. t_thread_id r = t \<and> t_user_id r = u) (thread_rows s) = Some td"
    and all: "filter (\<lambda>m. m_thread_id m = t \<and> m_user_id m = u) (message_rows s) = all_messages"
      "all_messages \<noteq> []"
    and msgs: "(case last_analyzed_at td of
                  None \<Rightarrow> all_messages
                | Some last_at \<Rightarrow>
                    filter (is_new_message (fromisoformat env) last_at) all_messages) = msgs"
      "msgs \<noteq> []"
    and tr: "build_transcript msgs (build_participants s u t) = Inr tr"
    and fp: "fp = (if last_analyzed_at td = None then FullPrompt tr
                   else IncrementalPrompt
                          (case summary td of
                             None \<Rightarrow> ''No previous summary''
                           | Some old \<Rightarrow> if old = [] then ''No previous summary'' else old) tr)"
    and a: "llm env fp = Some a"
  shows "ao_prompts (analyze_thread env u t s) = [fp]"
    and "ao_store (analyze_thread env u t s) =
           update_stage [t] u ''completed''
             (persist_feature_requests u t (la_feature_requests a)
                (persist_next_steps (strptime_date env) u t (la_next_steps a)
                   (update_thread u t (now_iso env) a s)))"
    and "ar_success (ao_result (analyze_thread env u t s))"
proof -
  have fp': "(if (if last_analyzed_at td = None then ''full'' else ''incremental'') = ''incremental''
              then IncrementalPrompt
                     (case summary td of
                        None \<Rightarrow> ''No previous summary''
                      | Some old \<Rightarrow> if old = [] then ''No previous summary'' else old) tr
              else FullPrompt tr) = fp"
    unfolding fp by simp
  note eq = analyze_thread_Some[OF td, of env, unfolded all(1) Let_def msgs(1), simplified all(2) msgs(2) if_False, unfolded tr sum.case fp' a option.case]
  show "ao_prompts (analyze_thread env u t s) = [fp]" unfolding eq by simp
  show "ao_store (analyze_thread env u t s) =
           update_stage [t] u ''completed''
             (persist_feature_requests u t (la_feature_requests a)
                (persist_next_steps (strptime_date env) u t (la_next_steps a)
                   (update_thread u t (now_iso env) a s)))" unfolding eq by simp
  show "ar_success (ao_result (analyze_thread env u t s))" unfolding eq by simp
qed

lemma analyze_thread_skipped:
  assumes td: "List.find (\<lambda>r. t_thread_id r = t \<and> t_user_id r = u) (thread_rows s) = Some td"
    and all: "filter (\<lambda>m. m_thread_id m = t \<and> m_user_id m = u) (message_rows s) \<noteq> []"
    and last: "last_analyzed_at td = Some last_at"
    and msgs: "filter (is_new_message (fromisoformat env) last_at)
                 (filter (\<lambda>m. m_thread_id m = t \<and> m_user_id m = u) (message_rows s)) = []"
  shows "analyze_thread env u t s =
           \<lparr>ao_result = \<lparr>ar_success = True, ar_thread_id = t, ar_errors = [],
                          ar_analysis = SkippedAnalysis ''incremental'' True ''No new messages''\<rparr>,
            ao_store = update_stage [t] u ''completed'' s,
            ao_prompts = []\<rparr>"
  unfolding analyze_thread_Some[OF td] using all last msgs by (simp add: Let_def)

lemma thread_store_run:
  "ao_prompts (analyze_thread (env_with now steps) ''u1'' ''t1'' thread_store)
     = [FullPrompt (construct_transcript (message_rows thread_store)
          (build_participants thread_store ''u1'' ''t1''))]"
  "ao_store (analyze_thread (env_with now steps) ''u1'' ''t1'' thread_store)
     = update_stage [''t1''] ''u1'' ''completed''
         (persist_feature_requests ''u1'' ''t1'' []
            (persist_next_steps (\<lambda>d. None) ''u1'' ''t1'' steps
               (update_thread ''u1'' ''t1'' now (answer steps) thread_store)))"
proof -
  let ?env = "env_with now steps"
  have td: "List.find (\<lambda>r. t_thread_id r = ''t1'' \<and> t_user_id r = ''u1'') (thread_rows thread_store)
              = Some example_thread" by code_simp
  have all: "filter (\<lambda>m. m_thread_id m = ''t1'' \<and> m_user_id m = ''u1'') (message_rows thread_store)
              = message_rows thread_store" by code_simp
  have ne: "message_rows thread_store \<noteq> []" by code_simp
  have msgs: "(case last_analyzed_at example_thread of
                  None \<Rightarrow> message_rows thread_store
                | Some last_at \<Rightarrow>
                    filter (is_new_message (fromisoformat ?env) last_at) (message_rows thread_store))
              = message_rows thread_store"
    by (simp add: example_thread_def)
  have tt: "total_text (message_rows thread_store) = Some ''hello hello''" by code_simp
  have tr: "build_transcript (message_rows thread_store) (build_participants thread_store ''u1'' ''t1'')
              = Inr (construct_transcript (message_rows thread_store)
                      (build_participants thread_store ''u1'' ''t1''))"
    by (rule build_transcript_small[OF tt]) simp
  have fp: "FullPrompt (construct_transcript (message_rows thread_store)
                (build_participants thread_store ''u1'' ''t1''))
           = (if last_analyzed_at example_thread = None
              then FullPrompt (construct_transcript (message_rows thread_store)
                     (build_participants thread_store ''u1'' ''t1''))
              else IncrementalPrompt
                     (case summary example_thread of
                        None \<Rightarrow> ''No previous summary''
                      | Some old \<Rightarrow> if old = [] then ''No previous summary'' else old)
                     (construct_transcript (message_rows thread_store)
                       (build_participants thread_store ''u1'' ''t1'')))"
    by (simp add: example_thread_def)
  have a: "llm ?env (FullPrompt (construct_transcript (message_rows thread_store)
                (build_participants thread_store ''u1'' ''t1''))) = Some (answer steps)"
    by (simp add: env_with_def)
  note r = analyze_thread_success[OF td all ne msgs ne tr fp a]
  show "ao_prompts (analyze_thread ?env ''u1'' ''t1'' thread_store)
     = [FullPrompt (construct_transcript (message_rows thread_store)
          (build_participants thread_store ''u1'' ''t1''))]"
    by (rule r(1))
  show "ao_store (analyze_thread ?env ''u1'' ''t1'' thread_store)
     = update_stage [''t1''] ''u1'' ''completed''
         (persist_feature_requests ''u1'' ''t1'' []
            (persist_next_steps (\<lambda>d. None) ''u1'' ''t1'' steps
               (update_thread ''u1'' ''t1'' now (answer steps) thread_store)))"
    using r(2) by (simp add: env_with_def answer_def)
qed

lemma second_run_prompts:
  "(\<exists>p. ao_prompts second_run = [p]) \<and> ar_success (ao_result second_run)"
proof -
  let ?steps1 = "[step_of ''Follow up with legal'']"
  let ?s1 = "update_stage [''t1''] ''u1'' ''completed''
         (persist_feature_requests ''u1'' ''t1'' []
            (persist_next_steps (\<lambda>d. None) ''u1'' ''t1'' ?steps1
               (update_thread ''u1'' ''t1'' ''2023-12-01T00:00:00+00:00'' (answer ?steps1)
                  thread_store)))"
  let ?env = "env_with ''2024-06-01T00:00:00+00:00'' [step_of ''follow up with legal  '']"
  let ?td = "example_thread\<lparr>summary := Some ''Legal was asked to review the contract'',
               sentiment := Some ''Neutral'', sentiment_score := Some 0,
               resolution_status := Some ''In Progress'',
               t_problem_statement := Some ''Contract review'',
               t_timeline_summary := Some ''Legal was asked to review the contract'',
               last_analyzed_at := Some ''2023-12-01T00:00:00+00:00''\<rparr>"
  have s1: "ao_store first_run = ?s1"
    unfolding first_run_def by (rule thread_store_run(2))
  have td: "List.find (\<lambda>r. t_thread_id r = ''t1'' \<and> t_user_id r = ''u1'') (thread_rows ?s1)
              = Some ?td" by code_simp
  have all: "filter (\<lambda>m. m_thread_id m = ''t1'' \<and> m_user_id m = ''u1'') (message_rows ?s1)
              = message_rows thread_store" by code_simp
  have ne: "message_rows thread_store \<noteq> []" by code_simp
  have new: "filter (is_new_message (map_of iso_table) ''2023-12-01T00:00:00+00:00'')
               (message_rows thread_store) = message_rows thread_store" by code_simp
  have msgs: "(case last_analyzed_at ?td of
                  None \<Rightarrow> message_rows thread_store
                | Some last_at \<Rightarrow>
                    filter (is_new_message (fromisoformat ?env) last_at) (message_rows thread_store))
              = message_rows thread_store"
    using new by (simp add: env_with_def)
  have tt: "total_text (message_rows thread_store) = Some ''hello hello''" by code_simp
  have tr: "build_transcript (message_rows thread_store) (build_participants ?s1 ''u1'' ''t1'')
              = Inr (construct_transcript (message_rows thread_store)
                      (build_participants ?s1 ''u1'' ''t1''))"
    by (rule build_transcript_small[OF tt]) simp
  obtain fp where fp: "fp = (if last_analyzed_at ?td = None
              then FullPrompt (construct_transcript (message_rows thread_store)
                     (build_participants ?s1 ''u1'' ''t1''))
              else IncrementalPrompt
                     (case summary ?td of
                        None \<Rightarrow> ''No previous summary''
                      | Some old \<Rightarrow> if old = [] then ''No previous summary'' else old)
                     (construct_transcript (message_rows thread_store)
                       (build_participants ?s1 ''u1'' ''t1'')))"
    by blast
  have a: "llm ?env fp = Some (answer [step_of ''follow up with legal  ''])"
    by (simp add: env_with_def)
  from analyze_thread_success(1)[OF td all ne msgs ne tr fp a]
    analyze_thread_success(3)[OF td all ne msgs ne tr fp a]
  show ?thesis unfolding second_run_def s1 by blast
qed

theorem next_step_duplicates_skipped_across_runs_witness:
  "map description (next_step_rows (ao_store first_run)) = [''Follow up with legal'']
   \<and> next_step_rows (ao_store second_run) = next_step_rows (ao_store first_run)
   \<and> length (filter (\<lambda>r. ns_thread_id r = ''t1'') (next_step_rows (ao_store second_run))) = 1
   \<and> ar_success (ao_result second_run)"
proof -
  let ?e1 = "env_with ''2023-12-01T00:00:00+00:00'' [step_of ''Follow up with legal'']"
  let ?e2 = "env_with ''2024-06-01T00:00:00+00:00'' [step_of ''follow up with legal  '']"
  let ?p1 = "FullPrompt (construct_transcript (message_rows thread_store)
          (build_participants thread_store ''u1'' ''t1''))"
  have p1: "ao_prompts (analyze_thread ?e1 ''u1'' ''t1'' thread_store) = [?p1]"
    by (rule thread_store_run(1))
  obtain p2 where p2: "ao_prompts (analyze_thread ?e2 ''u1'' ''t1''
               (ao_store (analyze_thread ?e1 ''u1'' ''t1'' thread_store))) = [p2]"
    using second_run_prompts unfolding second_run_def first_run_def by blast
  have l1: "llm ?e1 ?p1 = Some (answer [step_of ''Follow up with legal''])"
    by (simp add: env_with_def)
  have l2: "llm ?e2 p2 = Some (answer [step_of ''follow up with legal  ''])"
    by (simp add: env_with_def)
  have n: "strip (lower ''Follow up with legal'') = strip (lower ''follow up with legal  '')"
    by code_simp
  have e: "filter (\<lambda>r. ns_thread_id r = ''t1'') (next_step_rows thread_store) = []"
    by code_simp
  note t = next_step_duplicates_skipped_across_runs
      [THEN conjunct2, THEN conjunct2, THEN conjunct2, THEN conjunct2, THEN conjunct1,
        of ?e1 "''u1''" "''t1''" thread_store ?p1 "answer [step_of ''Follow up with legal'']"
          "step_of ''Follow up with legal''" ?e2 p2 "answer [step_of ''follow up with legal  '']"
          "step_of ''follow up with legal  ''" "''Follow up with legal''"
          "''follow up with legal  ''"]
  have s1: "la_next_steps (answer [step_of ''Follow up with legal''])
              = [step_of ''Follow up with legal'']"
    and s2: "la_next_steps (answer [step_of ''follow up with legal  ''])
              = [step_of ''follow up with legal  '']"
    by (simp_all add: answer_def)
  have t1: "ls_text (step_of ''Follow up with legal'') = Some ''Follow up with legal''"
    and t2: "ls_text (step_of ''follow up with legal  '') = Some ''follow up with legal  ''"
    by (simp_all add: step_of_def)
  have d1: "''Follow up with legal'' \<noteq> []" and d2: "''follow up with legal  '' \<noteq> []"
    by simp_all
  have "next_step_rows (ao_store (analyze_thread ?e2 ''u1'' ''t1''
                (ao_store (analyze_thread ?e1 ''u1'' ''t1'' thread_store))))
              = next_step_rows (ao_store (analyze_thread ?e1 ''u1'' ''t1'' thread_store))
        \<and> (filter (\<lambda>r. ns_thread_id r = ''t1'') (next_step_rows thread_store) = [] \<longrightarrow>
            length (filter (\<lambda>r. ns_thread_id r = ''t1'')
              (next_step_rows (ao_store (analyze_thread ?e2 ''u1'' ''t1''
                 (ao_store (analyze_thread ?e1 ''u1'' ''t1'' thread_store)))))) = 1)"
    by (rule t [THEN mp]) (intro conjI p1 p2 l1 l2 n s1 s2 t1 t2 d1 d2)
  then have 1: "next_step_rows (ao_store second_run) = next_step_rows (ao_store first_run)"
    and 2: "length (filter (\<lambda>r. ns_thread_id r = ''t1'') (next_step_rows (ao_store second_run))) = 1"
    using e unfolding first_run_def second_run_def by blast+
  have "map description (next_step_rows
          (update_stage [''t1''] ''u1'' ''completed''
            (persist_feature_requests ''u1'' ''t1'' []
              (persist_next_steps (\<lambda>d. None) ''u1'' ''t1'' [step_of ''Follow up with legal'']
                (update_thread ''u1'' ''t1'' ''2023-12-01T00:00:00+00:00''
                   (answer [step_of ''Follow up with legal'']) thread_store)))))
        = [''Follow up with legal'']"
    by code_simp
  then have 3: "map description (next_step_rows (ao_store first_run)) = [''Follow up with legal'']"
    unfolding first_run_def thread_store_run(2) .
  have 4: "ar_success (ao_result second_run)" using second_run_prompts by blast
  show ?thesis using 1 2 3 4 by blast
qed

theorem duplicates_within_one_batch_both_inserted_witness:
  "(\<exists>pre mid post r1 r2.
      next_step_rows (ao_store batch_run) = next_step_rows thread_store @ pre @ r1 # mid @ r2 # post
      \<and> description r1 = ''Send the contract'' \<and> description r2 = ''send the contract ''
      \<and> ns_thread_id r1 = ''t1'' \<and> ns_thread_id r2 = ''t1'')
   \<and> map description (next_step_rows (ao_store batch_run))
       = [''Send the contract'', ''send the contract '']"
proof -
  let ?steps = "[step_of ''Send the contract'', step_of ''send the contract '']"
  let ?e = "env_with ''2024-06-01T00:00:00+00:00'' ?steps"
  let ?p = "FullPrompt (construct_transcript (message_rows thread_store)
          (build_participants thread_store ''u1'' ''t1''))"
  have p: "ao_prompts (analyze_thread ?e ''u1'' ''t1'' thread_store) = [?p]"
    by (rule thread_store_run(1))
  have l: "llm ?e ?p = Some (answer ?steps)"
    by (simp add: env_with_def)
  have n: "strip (lower ''Send the contract'') = strip (lower ''send the contract '')"
    by code_simp
  have c: "\<not> check_next_step_exists thread_store ''t1'' ''Send the contract''"
    by code_simp
  have s: "la_next_steps (answer ?steps)
             = [] @ step_of ''Send the contract'' # [] @ step_of ''send the contract '' # []"
    by (simp add: answer_def)
  have t1: "ls_text (step_of ''Send the contract'') = Some ''Send the contract''"
    and t2: "ls_text (step_of ''send the contract '') = Some ''send the contract ''"
    by (simp_all add: step_of_def)
  have d1: "''Send the contract'' \<noteq> []" and d2: "''send the contract '' \<noteq> []"
    by simp_all
  have 1: "\<exists>pre mid post r1 r2.
      next_step_rows (ao_store batch_run) = next_step_rows thread_store @ pre @ r1 # mid @ r2 # post
      \<and> description r1 = ''Send the contract'' \<and> description r2 = ''send the contract ''
      \<and> ns_thread_id r1 = ''t1'' \<and> ns_thread_id r2 = ''t1''"
    unfolding batch_run_def
    by (rule duplicates_within_one_batch_both_inserted
      [of ?e "''u1''" "''t1''" thread_store ?p "answer ?steps" "[]"
        "step_of ''Send the contract''" "[]" "step_of ''send the contract ''" "[]"
        "''Send the contract''" "''send the contract ''", THEN mp])
      (intro conjI p l n c s t1 t2 d1 d2)
  have "map description (next_step_rows
          (update_stage [''t1''] ''u1'' ''completed''
            (persist_feature_requests ''u1'' ''t1'' []
              (persist_next_steps (\<lambda>d. None) ''u1'' ''t1'' ?steps
                (update_thread ''u1'' ''t1'' ''2024-06-01T00:00:00+00:00''
                   (answer ?steps) thread_store)))))
       = [''Send the contract'', ''send the contract '']"
    by code_simp
  then have 2: "map description (next_step_rows (ao_store batch_run))
       = [''Send the contract'', ''send the contract '']"
    unfolding batch_run_def thread_store_run(2) .
  show ?thesis using 1 2 by blast
qed

section \<open>Analysis: mode selection and the context-window guard\<close>








lemma long_body_facts: "length long_body = 400004" "long_body \<noteq> []"
  by (auto simp: long_body_def)

lemma slice_to_nat: "slice_to xs (int k) = take k xs"
  by (cases "k \<le> length xs") (simp_all add: slice_to_def clamp_index_def min_def)

lemma slice_from_neg:
  "slice_from xs (- int k) = (if k = 0 then xs else drop (length xs - k) xs)"
proof (cases "k = 0")
  case True
  then show ?thesis by (simp add: slice_from_def clamp_index_def)
next
  case False
  have "nat (max 0 (int (length xs) - int k)) = length xs - k" by simp
  then show ?thesis using False by (simp add: slice_from_def clamp_index_def)
qed

lemma build_transcript_truncated:
  assumes "total_text msgs = Some t" "400004 \<le> length t"
  shows "build_transcript msgs parts =
           Inr (join blank_line
             (List.map_filter (transcript_line parts) (take (length msgs div 5) msgs)
              @ [truncation_marker]
              @ List.map_filter (transcript_line parts)
                  (if length msgs div 5 = 0 then msgs
                   else drop (length msgs - length msgs div 5) msgs)))"
proof -
  have "estimate_tokens t > 100000"
    using assms(2) by (simp add: estimate_tokens_def)
  then show ?thesis
    using assms(1) by (simp add: build_transcript_def Let_def slice_to_nat slice_from_neg)
qed

lemma long_message_line:
  "transcript_line [] long_message = Some (''Unknown (Unknown Company): '' @ long_body)"
  by (simp add: transcript_line_def body_of_def long_message_def mail_def long_body_facts)

lemma long_message_text: "total_text [long_message] = Some long_body"
  by (simp add: total_text_def body_of_def long_message_def mail_def long_body_facts)

lemma long_transcript:
  "build_transcript [long_message] [] =
     Inr (truncation_marker @ blank_line @ ''Unknown (Unknown Company): '' @ long_body)"
  unfolding build_transcript_truncated[OF long_message_text, unfolded long_body_facts, OF order_refl]
  by (simp add: List.map_filter_simps long_message_line)

text \<open>
  Claim C1 at a thread of one message of 400,004 characters. The estimate is 100,001
  tokens, above the limit, and a fifth of one message is none: the claim's transcript
  is the marker alone. The code's \<open>messages[-0:]\<close> is the whole list, so the
  transcript is the marker followed by the entire message, and this is what the LLM is
  sent.
\<close>

theorem short_thread_truncation_keeps_every_message:
  "estimate_tokens long_body = 100001
   \<and> length [long_message] div 5 = 0
   \<and> build_transcript [long_message] [] =
       Inr (truncation_marker @ blank_line @ ''Unknown (Unknown Company): '' @ long_body)
   \<and> ao_prompts (analyze_thread (env_with ''2024-06-01T00:00:00'' []) ''u1'' ''t1''
        long_thread_store)
       = [FullPrompt (truncation_marker @ blank_line @ ''Unknown (Unknown Company): ''
            @ long_body)]"
proof -
  let ?env = "env_with ''2024-06-01T00:00:00'' []"
  have 1: "estimate_tokens long_body = 100001"
    by (simp add: estimate_tokens_def long_body_facts)
  have rows: "message_rows long_thread_store = [long_message]"
    "thread_rows long_thread_store = [example_thread]"
    "participant_rows long_thread_store = []"
    by (simp_all add: long_thread_store_def thread_store_def webmail_thread_def empty_store_def)
  have td: "List.find (\<lambda>r. t_thread_id r = ''t1'' \<and> t_user_id r = ''u1'')
              (thread_rows long_thread_store) = Some example_thread"
    unfolding rows by (simp add: example_thread_def)
  have all: "filter (\<lambda>m. m_thread_id m = ''t1'' \<and> m_user_id m = ''u1'')
               (message_rows long_thread_store) = [long_message]"
    unfolding rows by (simp add: long_message_def mail_def)
  have ne: "[long_message] \<noteq> []" by simp
  have msgs: "(case last_analyzed_at example_thread of
                  None \<Rightarrow> [long_message]
                | Some last_at \<Rightarrow>
                    filter (is_new_message (fromisoformat ?env) last_at) [long_message])
              = [long_message]"
    by (simp add: example_thread_def)
  have parts: "build_participants long_thread_store ''u1'' ''t1'' = []"
    by (simp add: build_participants_def rows)
  have tr: "build_transcript [long_message] (build_participants long_thread_store ''u1'' ''t1'')
              = Inr (truncation_marker @ blank_line @ ''Unknown (Unknown Company): '' @ long_body)"
    unfolding parts by (rule long_transcript)
  have fp: "FullPrompt (truncation_marker @ blank_line @ ''Unknown (Unknown Company): ''
              @ long_body)
           = (if last_analyzed_at example_thread = None
              then FullPrompt (truncation_marker @ blank_line @ ''Unknown (Unknown Company): ''
                     @ long_body)
              else IncrementalPrompt
                     (case summary example_thread of
                        None \<Rightarrow> ''No previous summary''
                      | Some old \<Rightarrow> if old = [] then ''No previous summary'' else old)
                     (truncation_marker @ blank_line @ ''Unknown (Unknown Company): ''
                        @ long_body))"
    by (simp add: example_thread_def)
  have a: "llm ?env (FullPrompt (truncation_marker @ blank_line
              @ ''Unknown (Unknown Company): '' @ long_body)) = Some (answer [])"
    by (simp add: env_with_def)
  note r = analyze_thread_success(1)[OF td all ne msgs ne tr fp a]
  show ?thesis using 1 long_transcript r by simp
qed

end
